theory Spec2Isabelle
  imports Main
begin

section \<open>Data model\<close>

text \<open>
  \<^verbatim>\<open>app/models.py\<close>: the single persisted entity. Every column is a field; a nullable
  column is an \<open>option\<close>. \<open>id\<close> and \<open>round\<close> carry a prime because HOL already has
  constants of those names. Time stamps are seconds on an abstract clock.
\<close>

record Task =
  id' :: nat
  nonce :: string
  status :: string
  email :: string
  task_name :: string
  round' :: int
  received_at :: nat
  completed_at :: "nat option"
  repo_url :: "string option"
  commit_sha :: "string option"
  pages_url :: "string option"
  evaluation_url :: "string option"
  brief :: "string option"
  error_message :: "string option"

text \<open>
  \<^verbatim>\<open>app/schemas.py\<close>. The fields of the request, of the acknowledgement and of the
  evaluation payload are prefixed, since several of them share a name with a column
  of \<open>Task\<close>. \<open>checks\<close> and \<open>attachments\<close> are lists of arbitrary JSON values, kept
  as their text.
\<close>

record TaskRequest =
  req_email :: string
  req_secret :: string
  req_task :: string
  req_round :: int
  req_nonce :: string
  req_brief :: "string option"
  req_checks :: "string list option"
  req_evaluation_url :: "string option"
  req_attachments :: "string list option"

record EvaluationPayload =
  p_email :: string
  p_task :: string
  p_round :: int
  p_nonce :: string
  p_repo_url :: string
  p_commit_sha :: string
  p_pages_url :: "string option"

record AcknowledgementResponse =
  ack_status :: string
  ack_task :: string
  ack_nonce :: string

text \<open>\<open>HTTPException(status_code, detail)\<close>, the only error the intake raises itself.\<close>

datatype http_error = HTTPException int string

text \<open>
  Python's truth test on an \<open>Optional[str]\<close>: \<open>not x\<close> holds for \<open>None\<close> and for the
  empty string.
\<close>

fun falsy :: "string option \<Rightarrow> bool" where
  "falsy None = True"
| "falsy (Some s) = (s = [])"

section \<open>Intake: \<^verbatim>\<open>app/main.py\<close>\<close>

text \<open>
  The state the endpoint works on: the rows of table \<open>tasks\<close> in insertion order, and
  the jobs sent to the queue (\<open>celery_app.send_task\<close>), each the id of a Task.
\<close>

record server =
  db :: "Task list"
  queue :: "nat list"

text \<open>\<open>db.query(Task).filter(...).first()\<close>: the first row that passes the filter.\<close>

definition query_first :: "(Task \<Rightarrow> bool) \<Rightarrow> Task list \<Rightarrow> Task option" where
  "query_first p rows = find p rows"

text \<open>
  The primary key the store assigns to a new row: one more than the largest id in the
  table (rows are never deleted).
\<close>

definition next_id :: "Task list \<Rightarrow> nat" where
  "next_id rows = Suc (Max (set (0 # map id' rows)))"

text \<open>
  Lines 57--64: the row the endpoint builds. Only \<open>nonce\<close>, \<open>status\<close>, \<open>email\<close>,
  \<open>task_name\<close> and \<open>round\<close> are given; \<open>id\<close> and \<open>received_at\<close> come from the store,
  every other column stays \<open>NULL\<close>.
\<close>

definition new_task :: "nat \<Rightarrow> nat \<Rightarrow> TaskRequest \<Rightarrow> Task" where
  "new_task ident now request =
     \<lparr> id' = ident, nonce = req_nonce request, status = ''RECEIVED'',
       email = req_email request, task_name = req_task request,
       round' = req_round request, received_at = now, completed_at = None,
       repo_url = None, commit_sha = None, pages_url = None,
       evaluation_url = None, brief = None, error_message = None \<rparr>"

text \<open>
  \<open>db.commit()\<close> of the added row raises \<open>IntegrityError\<close> exactly when the unique
  constraint on \<open>nonce\<close> (models.py line 12) is violated.
\<close>

definition unique_violation :: "TaskRequest \<Rightarrow> Task list \<Rightarrow> bool" where
  "unique_violation request rows = (req_nonce request \<in> set (map nonce rows))"

text \<open>
  Lines 57--85, from \<open>Task(...)\<close> to the acknowledgement: add and commit; on
  \<open>IntegrityError\<close> roll back, re-read the row for (nonce, round) and answer with it,
  or raise 409 when there is none; on success send the job and acknowledge. (A store
  or a queue that cannot be reached, lines 76--78 and 82, is outside the model.)
\<close>

definition insert_task :: "nat \<Rightarrow> TaskRequest \<Rightarrow> server \<Rightarrow> (http_error + AcknowledgementResponse) \<times> server" where
  "insert_task now request s =
     (if unique_violation request (db s) then
        (case query_first (\<lambda>t. nonce t = req_nonce request \<and> round' t = req_round request) (db s) of
           Some existing_task \<Rightarrow>
             (Inr \<lparr> ack_status = status existing_task, ack_task = task_name existing_task,
                    ack_nonce = nonce existing_task \<rparr>, s)
         | None \<Rightarrow> (Inl (HTTPException 409 ''A task with this nonce already exists.''), s))
      else
        (let t = new_task (next_id (db s)) now request in
           (Inr \<lparr> ack_status = ''RECEIVED'', ack_task = req_task request,
                  ack_nonce = req_nonce request \<rparr>,
            s\<lparr> db := db s @ [t], queue := queue s @ [id' t] \<rparr>)))"

text \<open>
  \<open>api_endpoint\<close>. \<open>expected\<close> is \<open>EXPECTED_SECRET\<close>, \<open>None\<close> when the variable is not
  set; \<open>now\<close> is the store's clock at the insert.
\<close>

definition api_endpoint :: "string option \<Rightarrow> nat \<Rightarrow> TaskRequest \<Rightarrow> server \<Rightarrow> (http_error + AcknowledgementResponse) \<times> server" where
  "api_endpoint expected now request s =
     (if Some (req_secret request) \<noteq> expected then
        (Inl (HTTPException 403 ''Invalid secret.''), s)
      else
        (case query_first (\<lambda>t. nonce t = req_nonce request \<and> round' t = req_round request
                                 \<and> status t = ''COMPLETE'') (db s) of
           Some existing \<Rightarrow>
             (Inr \<lparr> ack_status = status existing, ack_task = task_name existing,
                    ack_nonce = nonce existing \<rparr>, s)
         | None \<Rightarrow> insert_task now request s))"

section \<open>Strings\<close>

text \<open>
  \<open>str.split(sep)\<close> and \<open>str.replace(old, new)\<close> for a separator that is not empty
  (the source only passes literals): scan from the left, cut at every occurrence,
  continue after it. \<open>acc\<close> holds the current piece, reversed.
\<close>

fun py_split_from :: "string \<Rightarrow> string \<Rightarrow> string \<Rightarrow> string list" where
  "py_split_from sep acc [] = [rev acc]"
| "py_split_from sep acc (c # cs) =
     (if sep \<noteq> [] \<and> take (length sep) (c # cs) = sep
      then rev acc # py_split_from sep [] (drop (length sep - 1) cs)
      else py_split_from sep (c # acc) cs)"

definition py_split :: "string \<Rightarrow> string \<Rightarrow> string list" where
  "py_split sep s = py_split_from sep [] s"

fun py_replace :: "string \<Rightarrow> string \<Rightarrow> string \<Rightarrow> string" where
  "py_replace old new [] = []"
| "py_replace old new (c # cs) =
     (if old \<noteq> [] \<and> take (length old) (c # cs) = old
      then new @ py_replace old new (drop (length old - 1) cs)
      else c # py_replace old new cs)"

text \<open>
  \<open>occurs sub s\<close>: \<open>sub\<close> is found in \<open>s\<close>, at a position where the scans above test
  for it.
\<close>

fun occurs :: "string \<Rightarrow> string \<Rightarrow> bool" where
  "occurs sub [] = (sub = [])"
| "occurs sub (c # cs) = (take (length sub) (c # cs) = sub \<or> occurs sub cs)"

text \<open>\<open>str.strip()\<close>: drop white space at both ends.\<close>

definition is_space :: "char \<Rightarrow> bool" where
  "is_space c = (c \<in> set [CHR '' '', CHR 0x09, CHR 0x0A, CHR 0x0B, CHR 0x0C, CHR 0x0D])"

definition py_strip :: "string \<Rightarrow> string" where
  "py_strip s = rev (dropWhile is_space (rev (dropWhile is_space s)))"

section \<open>The worker: \<^verbatim>\<open>workers/tasks.py\<close>\<close>

subsection \<open>The outside world\<close>

text \<open>
  Everything the worker reads from outside the program, for one run of
  \<open>process_task\<close>. An exception is its description (\<open>str(e)\<close>).
  \<^item> \<open>github_token\<close>: \<open>os.getenv("GITHUB_TOKEN")\<close>;
  \<^item> \<open>write_files\<close>: \<open>Some e\<close> when creating the scratch directory or writing the three
    generated files raises \<open>e\<close>;
  \<^item> \<open>create_repo_api\<close>: what the hosting provider's \<open>create_repo\<close> call does: raise
    (\<open>Inl\<close>) or return the clone URL;
  \<^item> \<open>git_push\<close>: \<open>None\<close> when one of the git subprocesses raises, else the output of
    \<open>git rev-parse HEAD\<close>;
  \<^item> \<open>pages_api\<close>: \<open>Some e\<close> when one of the provider calls that enable publication
    raises \<open>e\<close>;
  \<^item> \<open>page_polls k\<close>: the status code of the \<open>k\<close>-th GET of the publication URL
    (counted from 0), \<open>None\<close> when the GET raises;
  \<^item> \<open>payload_validation\<close>: \<open>Some e\<close> when the schema \<open>EvaluationPayload\<close> rejects the
    values (its field formats are checked by the schema library);
  \<^item> \<open>post_responses n\<close>: how long the \<open>n\<close>-th POST to the evaluator takes (counted
    from 1, as the retry library numbers its attempts), in seconds, and its status
    code, \<open>None\<close> when the POST raises;
  \<^item> \<open>time_start\<close>, \<open>time_notify\<close>, \<open>time_complete\<close>: the clock, in seconds, at line 41,
    on entry to \<open>notify_evaluator\<close> and at line 99.
\<close>

record world =
  github_token :: "string option"
  write_files :: "string option"
  create_repo_api :: "string + string"
  git_push :: "string option"
  pages_api :: "string option"
  page_polls :: "nat \<Rightarrow> int option"
  payload_validation :: "EvaluationPayload \<Rightarrow> string option"
  post_responses :: "nat \<Rightarrow> nat \<times> int option"
  time_start :: nat
  time_notify :: nat
  time_complete :: nat

subsection \<open>Provisioning and publication\<close>

text \<open>
  \<open>create_github_repo\<close>: no token, no repository (\<open>None\<close>); otherwise the provider's
  answer. The repository name (nonce, round and a random suffix) only goes to the
  provider.
\<close>

definition create_github_repo :: "world \<Rightarrow> Task \<Rightarrow> string option \<Rightarrow> string + string option" where
  "create_github_repo w task token =
     (if falsy token then Inr None
      else (case create_repo_api w of Inl e \<Rightarrow> Inl e | Inr clone_url \<Rightarrow> Inr (Some clone_url)))"

text \<open>
  \<open>push_to_github\<close>: \<open>None\<close> without a repository URL or a token; every exception of
  the git commands is caught and turned into \<open>None\<close>; otherwise the stripped output of
  \<open>git rev-parse HEAD\<close>.
\<close>

definition push_to_github :: "world \<Rightarrow> Task \<Rightarrow> string option \<Rightarrow> string option \<Rightarrow> string option" where
  "push_to_github w task repo token =
     (if falsy repo \<or> falsy token then None
      else (case git_push w of None \<Rightarrow> None | Some out \<Rightarrow> Some (py_strip out)))"

text \<open>
  \<open>enable_github_pages\<close>: returns at once without a token or without
  \<open>task.repo_url\<close>; otherwise the provider calls, which may raise.
\<close>

definition enable_github_pages :: "world \<Rightarrow> Task \<Rightarrow> string option \<Rightarrow> string option" where
  "enable_github_pages w task token =
     (if falsy token \<or> falsy (repo_url task) then None else pages_api w)"

subsection \<open>The verifier\<close>

text \<open>
  The loop of \<open>verify_pages_deployment\<close> (lines 177--186), with \<open>timeout = 300\<close> and
  \<open>interval = 10\<close>. \<open>elapsed\<close> is the loop's own counter of the seconds slept; \<open>k\<close>
  counts the GETs. The result is the URL returned and the values of \<open>elapsed\<close> at
  which a GET was made.
\<close>

function poll_pages :: "(nat \<Rightarrow> int option) \<Rightarrow> string \<Rightarrow> nat \<Rightarrow> nat \<Rightarrow> string \<times> nat list" where
  "poll_pages get url k elapsed =
     (if elapsed < 300 then
        (if get k = Some 200 then (url, [elapsed])
         else (case poll_pages get url (Suc k) (elapsed + 10) of
                 (r, polls) \<Rightarrow> (r, elapsed # polls)))
      else (url, []))"
  by pat_completeness auto
termination
  by (relation "measure (\<lambda>(get, url, k, elapsed). 300 - elapsed)") auto

text \<open>
  \<open>verify_pages_deployment\<close>: \<open>None\<close> without \<open>task.repo_url\<close>; \<open>owner, repo = ...\<close>
  raises \<open>ValueError\<close> unless the split gives exactly two parts.
\<close>

definition verify_pages_deployment :: "(nat \<Rightarrow> int option) \<Rightarrow> Task \<Rightarrow> (string + string option) \<times> nat list" where
  "verify_pages_deployment get task =
     (if falsy (repo_url task) then (Inr None, [])
      else
        (let repo_full_name = py_replace ''.git'' '''' (last (py_split ''github.com/'' (the (repo_url task))))
         in case py_split ''/'' repo_full_name of
              [owner, repo] \<Rightarrow>
                (let pages_url = ''https://'' @ owner @ ''.github.io/'' @ repo @ ''/''
                 in case poll_pages get pages_url 0 0 of (r, polls) \<Rightarrow> (Inr (Some r), polls))
            | [_] \<Rightarrow> (Inl ''not enough values to unpack (expected 2, got 1)'', [])
            | _ \<Rightarrow> (Inl ''too many values to unpack (expected 2)'', [])))"

subsection \<open>The notifier\<close>

text \<open>
  \<open>build_evaluation_payload\<close>: the seven fields, read from the Task. Constructing
  \<open>EvaluationPayload\<close> raises when a required field is \<open>None\<close> or when the schema
  library rejects a value. (The library's long description of a missing field is
  abridged.)
\<close>

definition build_evaluation_payload :: "world \<Rightarrow> Task \<Rightarrow> string + EvaluationPayload" where
  "build_evaluation_payload w task =
     (case (repo_url task, commit_sha task) of
        (Some r, Some c) \<Rightarrow>
          (let p = \<lparr> p_email = email task, p_task = task_name task, p_round = round' task,
                     p_nonce = nonce task, p_repo_url = r, p_commit_sha = c,
                     p_pages_url = pages_url task \<rparr>
           in case payload_validation w p of Some e \<Rightarrow> Inl e | None \<Rightarrow> Inr p)
      | _ \<Rightarrow> Inl ''validation error for EvaluationPayload'')"

text \<open>
  The decorator of \<open>post_with_retry\<close> (lines 119--123):
  \<open>wait_exponential(multiplier=2, min=2, max=16)\<close> waits
  \<open>max(min, min(multiplier * 2 ** (attempt_number - 1), max))\<close> seconds after the
  attempt numbered \<open>attempt_number\<close> (from 1); \<open>stop_after_delay(600)\<close> stops once
  600 seconds have passed since the decorated call began.
\<close>

definition wait_exponential :: "nat \<Rightarrow> nat" where
  "wait_exponential attempt_number = max (max 0 2) (min (2 * 2 ^ (attempt_number - 1)) 16)"

definition stop_after_delay :: "nat \<Rightarrow> bool" where
  "stop_after_delay seconds_since_start = (600 \<le> seconds_since_start)"

text \<open>
  The retry loop around the body of \<open>post_with_retry\<close>. One attempt POSTs at time
  \<open>now\<close>; a 200 returns; any other status and any exception of the POST is an
  exception of the body, retried (\<open>retry_if_exception_type(Exception)\<close>) unless
  \<open>stop_after_delay\<close> says stop, which raises \<open>RetryError\<close>; before the next attempt
  the loop sleeps \<open>wait_exponential\<close>. \<open>call_start\<close> is the time at which
  \<open>post_with_retry\<close> was called. Every POST is logged with its time, URL and body.
  (The description of \<open>RetryError\<close> holds the address of an object; the model keeps
  the name of the class.)
\<close>

type_synonym post = "nat \<times> string \<times> EvaluationPayload"

function retrying :: "(nat \<Rightarrow> nat \<times> int option) \<Rightarrow> string \<Rightarrow> EvaluationPayload \<Rightarrow> nat \<Rightarrow> nat \<Rightarrow> nat \<Rightarrow> (string + int) \<times> post list" where
  "retrying responses url payload call_start attempt_number now =
     (if snd (responses attempt_number) = Some 200 then (Inr 200, [(now, url, payload)])
      else if stop_after_delay (now + fst (responses attempt_number) - call_start)
      then (Inl ''RetryError'', [(now, url, payload)])
      else (case retrying responses url payload call_start (Suc attempt_number)
                   (now + fst (responses attempt_number) + wait_exponential attempt_number) of
              (r, posts) \<Rightarrow> (r, (now, url, payload) # posts)))"
  by pat_completeness auto
termination
proof (relation "measure (\<lambda>(responses, url, payload, call_start, attempt_number, now). call_start + 600 - now)")
  show "wf (measure (\<lambda>(responses, url, payload, call_start, attempt_number, now). call_start + 600 - now))"
    by simp
next
  fix responses :: "nat \<Rightarrow> nat \<times> int option" and url :: string and payload :: EvaluationPayload
    and call_start attempt_number now :: nat
  assume "\<not> stop_after_delay (now + fst (responses attempt_number) - call_start)"
  then have "now < call_start + 600"
    by (simp add: stop_after_delay_def)
  moreover have "0 < wait_exponential attempt_number"
    by (simp add: wait_exponential_def less_max_iff_disj)
  ultimately show "((responses, url, payload, call_start, Suc attempt_number,
      now + fst (responses attempt_number) + wait_exponential attempt_number),
      (responses, url, payload, call_start, attempt_number, now))
    \<in> measure (\<lambda>(responses, url, payload, call_start, attempt_number, now). call_start + 600 - now)"
    by simp
qed

definition post_with_retry :: "(nat \<Rightarrow> nat \<times> int option) \<Rightarrow> nat \<Rightarrow> string \<Rightarrow> EvaluationPayload \<Rightarrow> (string + int) \<times> post list" where
  "post_with_retry responses now url payload = retrying responses url payload now 1 now"

text \<open>
  \<open>notify_evaluator(task, db, start_time)\<close>, entered at time \<open>now\<close>. The callback URL
  is \<open>task.evaluation_url\<close> or, when that is missing, \<open>task.error_message\<close> (lines
  135--138). \<open>elapsed\<close> and \<open>remaining\<close> (lines 142--143) are computed and not used.
\<close>

definition notify_evaluator :: "world \<Rightarrow> Task \<Rightarrow> nat \<Rightarrow> nat \<Rightarrow> (string + unit) \<times> post list" where
  "notify_evaluator w task start_time now =
     (if falsy (pages_url task) \<or> falsy (repo_url task) \<or> falsy (commit_sha task) then
        (Inl ''Missing required fields for evaluation notification.'', [])
      else
        (let evaluation_url =
               (if falsy (evaluation_url task) \<and> \<not> falsy (error_message task)
                then error_message task else evaluation_url task)
         in if falsy evaluation_url then (Inl ''No evaluation_url found for task.'', [])
            else
              (case build_evaluation_payload w task of
                 Inl e \<Rightarrow> (Inl e, [])
               | Inr payload \<Rightarrow>
                   (let elapsed = int now - int start_time;
                        remaining = max 0 (600 - elapsed)
                    in case post_with_retry (post_responses w) now (the evaluation_url) payload of
                         (Inl e, posts) \<Rightarrow> (Inl (''Failed to notify evaluator: '' @ e), posts)
                       | (Inr resp, posts) \<Rightarrow> (Inr (), posts)))))"

subsection \<open>The pipeline executor\<close>

text \<open>
  A run is the Task object in memory and the row states committed so far.
  \<open>commit f\<close> assigns to the object and calls \<open>db.commit()\<close>.
\<close>

definition commit :: "(Task \<Rightarrow> Task) \<Rightarrow> Task \<times> Task list \<Rightarrow> Task \<times> Task list" where
  "commit f r = (f (fst r), snd r @ [f (fst r)])"

text \<open>
  The \<open>try\<close> suite of \<open>process_task\<close> (lines 43--100), one definition for each block
  under a \<^verbatim>\<open># State:\<close> comment, each ending in the block that follows it in the source.
  \<open>Inl (e, r)\<close>: an exception with description \<open>e\<close> left the suite when the run was
  \<open>r\<close>. First lines 92--100, \<open>NOTIFY_EVALUATOR\<close> and \<open>COMPLETE\<close>.
\<close>

definition state_notify_evaluator :: "world \<Rightarrow> Task \<times> Task list \<Rightarrow> (string \<times> Task \<times> Task list) + Task \<times> Task list" where
  "state_notify_evaluator w r0 =
     (let r = commit (\<lambda>t. t\<lparr>status := ''NOTIFY_EVALUATOR''\<rparr>) r0 in
      case fst (notify_evaluator w (fst r) (time_start w) (time_notify w)) of
        Inl e \<Rightarrow> Inl (e, r)
      | Inr _ \<Rightarrow>
          Inr (commit (\<lambda>t. t\<lparr>status := ''COMPLETE'', completed_at := Some (time_complete w)\<rparr>) r))"

text \<open>Lines 84--90, \<open>VERIFY_PAGES\<close>.\<close>

definition state_verify_pages :: "world \<Rightarrow> Task \<times> Task list \<Rightarrow> (string \<times> Task \<times> Task list) + Task \<times> Task list" where
  "state_verify_pages w r0 =
     (let r = commit (\<lambda>t. t\<lparr>status := ''VERIFY_PAGES''\<rparr>) r0 in
      case fst (verify_pages_deployment (page_polls w) (fst r)) of
        Inl e \<Rightarrow> Inl (e, r)
      | Inr pages \<Rightarrow>
          state_notify_evaluator w
            (if \<not> falsy pages then commit (\<lambda>t. t\<lparr>pages_url := pages\<rparr>) r else r))"

text \<open>Lines 79--82, \<open>ENABLE_PAGES\<close>.\<close>

definition state_enable_pages :: "world \<Rightarrow> Task \<times> Task list \<Rightarrow> (string \<times> Task \<times> Task list) + Task \<times> Task list" where
  "state_enable_pages w r0 =
     (let r = commit (\<lambda>t. t\<lparr>status := ''ENABLE_PAGES''\<rparr>) r0 in
      case enable_github_pages w (fst r) (github_token w) of
        Some e \<Rightarrow> Inl (e, r)
      | None \<Rightarrow> state_verify_pages w r)"

text \<open>
  Lines 71--77, \<open>PUSH_COMMIT\<close>. \<open>repo\<close> is the local variable \<open>repo_url\<close> of
  \<open>process_task\<close>, what \<open>create_github_repo\<close> returned.
\<close>

definition state_push_commit :: "world \<Rightarrow> string option \<Rightarrow> Task \<times> Task list \<Rightarrow> (string \<times> Task \<times> Task list) + Task \<times> Task list" where
  "state_push_commit w repo r0 =
     (let r = commit (\<lambda>t. t\<lparr>status := ''PUSH_COMMIT''\<rparr>) r0;
          sha = push_to_github w (fst r) repo (github_token w)
      in state_enable_pages w
           (if \<not> falsy sha then commit (\<lambda>t. t\<lparr>commit_sha := sha\<rparr>) r else r))"

text \<open>Lines 63--69, \<open>CREATE_REPO\<close>.\<close>

definition state_create_repo :: "world \<Rightarrow> Task \<times> Task list \<Rightarrow> (string \<times> Task \<times> Task list) + Task \<times> Task list" where
  "state_create_repo w r0 =
     (let r = commit (\<lambda>t. t\<lparr>status := ''CREATE_REPO''\<rparr>) r0 in
      case create_github_repo w (fst r) (github_token w) of
        Inl e \<Rightarrow> Inl (e, r)
      | Inr repo \<Rightarrow>
          state_push_commit w repo
            (if \<not> falsy repo then commit (\<lambda>t. t\<lparr>repo_url := repo\<rparr>) r else r))"

text \<open>Lines 43--61, \<open>GENERATING_PROJECT\<close>.\<close>

definition state_generating_project :: "world \<Rightarrow> Task \<times> Task list \<Rightarrow> (string \<times> Task \<times> Task list) + Task \<times> Task list" where
  "state_generating_project w r0 =
     (let r = commit (\<lambda>t. t\<lparr>status := ''GENERATING_PROJECT''\<rparr>) r0 in
      case write_files w of
        Some e \<Rightarrow> Inl (e, r)
      | None \<Rightarrow> state_create_repo w r)"

definition process_task_try :: "world \<Rightarrow> Task \<Rightarrow> (string \<times> Task \<times> Task list) + Task \<times> Task list" where
  "process_task_try w task = state_generating_project w (task, [])"

text \<open>
  The \<open>except\<close> clause (lines 101--104), and the whole \<open>try\<close> statement: the row states
  one run commits, in order.
\<close>

definition process_task_except :: "string \<times> Task \<times> Task list \<Rightarrow> Task \<times> Task list" where
  "process_task_except x =
     (case x of (e, r) \<Rightarrow> commit (\<lambda>t. t\<lparr>status := ''FAILED'', error_message := Some e\<rparr>) r)"

definition process_task_body :: "world \<Rightarrow> Task \<Rightarrow> Task list" where
  "process_task_body w task =
     (case process_task_try w task of
        Inl x \<Rightarrow> snd (process_task_except x)
      | Inr r \<Rightarrow> snd r)"

text \<open>
  \<open>process_task(task_id)\<close> on the table: nothing when no row has the id (lines
  37--39), otherwise the row is left as the run's last commit wrote it. (\<open>id\<close> is the
  primary key.)
\<close>

definition process_task :: "world \<Rightarrow> nat \<Rightarrow> Task list \<Rightarrow> Task list" where
  "process_task w task_id rows =
     (case query_first (\<lambda>t. id' t = task_id) rows of
        None \<Rightarrow> rows
      | Some task \<Rightarrow>
          map (\<lambda>t. if id' t = task_id then last (process_task_body w task) else t) rows)"

declare poll_pages.simps [simp del]
declare retrying.simps [simp del]

section \<open>The system over time\<close>

text \<open>
  What can happen to the store and the queue, one event at a time:
  \<^item> \<open>Submit\<close>: a request handled by \<open>api_endpoint\<close> from its first line to its last;
  \<^item> \<open>RacedInsert\<close>: a request that passed the checks of lines 43--55 against an
    earlier state of the table, while other requests and workers went on, and now
    runs lines 57--85 against the present one (it got past line 45, so its secret is
    the expected one);
  \<^item> \<open>Worker\<close>: a run of \<open>process_task\<close> in a worker.
\<close>

datatype event = Submit nat TaskRequest | RacedInsert nat TaskRequest | Worker world nat

fun step :: "string option \<Rightarrow> event \<Rightarrow> server \<Rightarrow> server" where
  "step expected (Submit now request) s = snd (api_endpoint expected now request s)"
| "step expected (RacedInsert now request) s =
     (if Some (req_secret request) = expected then snd (insert_task now request s) else s)"
| "step expected (Worker w task_id) s = s\<lparr> db := process_task w task_id (db s) \<rparr>"

definition run_events :: "string option \<Rightarrow> event list \<Rightarrow> server \<Rightarrow> server" where
  "run_events expected evs s = fold (step expected) evs s"

text \<open>The rows that carry a nonce, and the jobs in the queue for those rows.\<close>

definition rows_for :: "string \<Rightarrow> server \<Rightarrow> Task list" where
  "rows_for n s = filter (\<lambda>t. nonce t = n) (db s)"

definition runs_for :: "string \<Rightarrow> server \<Rightarrow> nat list" where
  "runs_for n s = filter (\<lambda>i. i \<in> id' ` set (rows_for n s)) (queue s)"

text \<open>
  The order of the pipeline's states (the \<^verbatim>\<open># State:\<close> comments of \<open>process_task\<close>, after
  \<open>RECEIVED\<close>); \<open>FAILED\<close> ends a run as \<open>COMPLETE\<close> does.
\<close>

definition pipeline_order :: "string list" where
  "pipeline_order = [''RECEIVED'', ''GENERATING_PROJECT'', ''CREATE_REPO'', ''PUSH_COMMIT'',
     ''ENABLE_PAGES'', ''VERIFY_PAGES'', ''NOTIFY_EVALUATOR'', ''COMPLETE'']"

fun index_of :: "string \<Rightarrow> string list \<Rightarrow> nat" where
  "index_of x [] = 0"
| "index_of x (y # ys) = (if x = y then 0 else Suc (index_of x ys))"

definition status_rank :: "string \<Rightarrow> nat" where
  "status_rank s = (if s = ''FAILED'' then index_of ''COMPLETE'' pipeline_order
                    else index_of s pipeline_order)"

definition terminal :: "string \<Rightarrow> bool" where
  "terminal s = (s = ''COMPLETE'' \<or> s = ''FAILED'')"

section \<open>Properties the proofs are about\<close>

text \<open>
  Properties of a run that the proofs carry from block to block. \<open>same_submission t\<close>:
  the columns that no block assigns are those of \<open>t\<close>. \<open>ordered_run k\<close>: something has
  been committed, the object in memory is the last state committed, the states
  committed are in pipeline order, and none is beyond the \<open>k\<close>-th or terminal.
  \<open>run_inv t k\<close>: moreover the run is one of Task \<open>t\<close>, and its first commit moved \<open>t\<close>
  to \<open>GENERATING_PROJECT\<close>.
\<close>

definition same_submission :: "Task \<Rightarrow> Task \<Rightarrow> bool" where
  "same_submission t c =
     (id' c = id' t \<and> nonce c = nonce t \<and> round' c = round' t \<and> email c = email t \<and>
      task_name c = task_name t \<and> received_at c = received_at t \<and>
      evaluation_url c = evaluation_url t \<and> brief c = brief t)"

definition ordered_run :: "nat \<Rightarrow> Task \<times> Task list \<Rightarrow> bool" where
  "ordered_run k r =
     (snd r \<noteq> [] \<and> fst r = last (snd r) \<and>
      sorted (map (\<lambda>c. status_rank (status c)) (snd r)) \<and>
      (\<forall>c \<in> set (snd r). status_rank (status c) \<le> k \<and> \<not> terminal (status c)))"

definition run_inv :: "Task \<Rightarrow> nat \<Rightarrow> Task \<times> Task list \<Rightarrow> bool" where
  "run_inv t k r =
     (ordered_run k r \<and> hd (snd r) = t\<lparr>status := ''GENERATING_PROJECT''\<rparr> \<and>
      (\<forall>c \<in> set (snd r). same_submission t c))"

text \<open>
  What holds when the \<open>try\<close> suite is left: by an exception, during one of the six
  steps; or at its end, by the commit of \<open>COMPLETE\<close>.
\<close>

definition outcome_inv :: "Task \<Rightarrow> world \<Rightarrow> (string \<times> Task \<times> Task list) + Task \<times> Task list \<Rightarrow> bool" where
  "outcome_inv t w res =
     (case res of
        Inl (e, r) \<Rightarrow> run_inv t 6 r
      | Inr r' \<Rightarrow>
          (\<exists>r. run_inv t 6 r \<and>
               r' = commit (\<lambda>c. c\<lparr>status := ''COMPLETE'', completed_at := Some (time_complete w)\<rparr>) r))"



text \<open>
  What the store guarantees of the table (\<open>nonce\<close> unique, \<open>id\<close> the primary key), and
  what the intake keeps of the queue: one job for each row, in order.
\<close>

definition store_inv :: "server \<Rightarrow> bool" where
  "store_inv s = (distinct (map nonce (db s)) \<and> distinct (map id' (db s)) \<and> queue s = map id' (db s))"

text \<open>
  A run that has not written \<open>commit_sha\<close>; and the \<open>try\<close> suite left by an exception
  that has a description, in such a run.
\<close>

definition no_sha :: "Task \<times> Task list \<Rightarrow> bool" where
  "no_sha r = (commit_sha (fst r) = None \<and> (\<forall>c \<in> set (snd r). commit_sha c = None))"

definition fails_without_sha :: "(string \<times> Task \<times> Task list) + Task \<times> Task list \<Rightarrow> bool" where
  "fails_without_sha res = (case res of Inl (e, r) \<Rightarrow> e \<noteq> [] \<and> no_sha r | Inr r \<Rightarrow> False)"

text \<open>A run of a Task with no callback URL in either of the columns the notifier reads.\<close>

definition no_callback :: "Task \<times> Task list \<Rightarrow> bool" where
  "no_callback r = (evaluation_url (fst r) = None \<and> error_message (fst r) = None)"

section \<open>Example inputs\<close>

text \<open>
  The submission of the specification's scenario A, the row the intake makes of it, and
  the server after that submission.
\<close>

definition empty_server :: server where
  "empty_server = \<lparr> db = [], queue = [] \<rparr>"

definition request_a :: TaskRequest where
  "request_a = \<lparr> req_email = ''a@example.com'', req_secret = ''s3cret'', req_task = ''portfolio'',
     req_round = 1, req_nonce = ''n-001'', req_brief = Some ''Hello'', req_checks = None,
     req_evaluation_url = Some ''https://evaluator.example/notify'', req_attachments = None \<rparr>"

definition task_a :: Task where
  "task_a = new_task 1 0 request_a"

definition server_a :: server where
  "server_a = \<lparr> db = [task_a], queue = [1] \<rparr>"

text \<open>Scenario C: the Task of scenario A after it reached \<open>COMPLETE\<close>.\<close>

definition task_c :: Task where
  "task_c = task_a\<lparr> status := ''COMPLETE'', pages_url := Some ''https://a.example.io/n-001/'' \<rparr>"

definition server_c :: server where
  "server_c = \<lparr> db = [task_c], queue = [1] \<rparr>"

text \<open>
  A world in which every step succeeds: the page answers 200 at the third GET, the
  evaluator at the third POST, each POST taking one second.
\<close>

definition world_ok :: world where
  "world_ok = \<lparr> github_token = Some ''ghp_token'', write_files = None,
     create_repo_api = Inr ''https://github.com/alice/student-task-n-001-1-ab12cd.git'',
     git_push = Some (''0123abc'' @ [CHR 0x0A]), pages_api = None,
     page_polls = (\<lambda>k. if k = 2 then Some 200 else Some 404),
     payload_validation = (\<lambda>p. None),
     post_responses = (\<lambda>n. (1, if n = 3 then Some 200 else Some 500)),
     time_start = 100, time_notify = 130, time_complete = 140 \<rparr>"

text \<open>
  The Task of scenario A as the pipeline needs it to get through, with the callback URL
  in its column; the same with the three results in their columns, ready for the
  notifier.
\<close>

definition task_with_callback :: Task where
  "task_with_callback = task_a\<lparr> evaluation_url := Some ''https://evaluator.example/notify'' \<rparr>"

definition task_ready :: Task where
  "task_ready = task_with_callback\<lparr> status := ''NOTIFY_EVALUATOR'',
     repo_url := Some ''https://github.com/alice/student-task-n-001-1-ab12cd.git'',
     commit_sha := Some ''0123abc'',
     pages_url := Some ''https://alice.github.io/student-task-n-001-1-ab12cd/'' \<rparr>"

text \<open>
  The Task of scenario A as a first run in \<open>world_ok\<close> leaves it: without a callback
  URL, and with the description of the failure in \<open>error_message\<close>. And the server
  then.
\<close>

definition task_after_run :: Task where
  "task_after_run = task_a\<lparr> status := ''FAILED'',
     repo_url := Some ''https://github.com/alice/student-task-n-001-1-ab12cd.git'',
     commit_sha := Some ''0123abc'',
     pages_url := Some ''https://alice.github.io/student-task-n-001-1-ab12cd/'',
     error_message := Some ''No evaluation_url found for task.'' \<rparr>"

definition server_after_run :: server where
  "server_after_run = \<lparr> db = [task_after_run], queue = [1] \<rparr>"


text \<open>
  A submission whose nonce is \<open>a.gitb\<close>: \<open>create_github_repo\<close> names its repository
  \<open>student-task-a.gitb-1-ab12cd\<close> (line 198), and the clone URL of that repository is
  in \<open>repo_url\<close>. And a world in which the page never answers 200.
\<close>

definition task_dotgit :: Task where
  "task_dotgit = (new_task 2 0 (request_a\<lparr>req_nonce := ''a.gitb''\<rparr>))
     \<lparr> repo_url := Some ''https://github.com/alice/student-task-a.gitb-1-ab12cd.git'' \<rparr>"

definition world_no_page :: world where
  "world_no_page = world_ok\<lparr> page_polls := (\<lambda>k. Some 404) \<rparr>"

text \<open>
  A world in which the steps before the notifier take 450 seconds (the verifier alone
  can sleep 300) and the evaluator answers every POST at once with 500.
\<close>

definition world_late :: world where
  "world_late = world_ok\<lparr> post_responses := (\<lambda>n. (0, Some 500)), time_start := 0, time_notify := 450 \<rparr>"

section \<open>Unfolding the model on the examples\<close>

lemmas run_defs = process_task_body_def process_task_try_def process_task_except_def
  state_generating_project_def state_create_repo_def state_push_commit_def state_enable_pages_def
  state_verify_pages_def state_notify_evaluator_def commit_def Let_def
  create_github_repo_def push_to_github_def enable_github_pages_def verify_pages_deployment_def
  notify_evaluator_def build_evaluation_payload_def post_with_retry_def
  py_split_def py_strip_def is_space_def stop_after_delay_def wait_exponential_def

lemmas example_defs = world_ok_def task_with_callback_def task_c_def task_a_def new_task_def
  request_a_def server_a_def server_c_def

lemmas example_defs2 = task_ready_def task_after_run_def world_late_def

text \<open>The first run for the Task of scenario A, in the world where every step succeeds.\<close>

lemma first_run: "last (process_task_body world_ok task_a) = task_after_run"
  by (simp add: run_defs example_defs task_after_run_def poll_pages.simps)

section \<open>One run of the pipeline\<close>

lemma rank_simps:
  "status_rank ''GENERATING_PROJECT'' = 1" "status_rank ''CREATE_REPO'' = 2"
  "status_rank ''PUSH_COMMIT'' = 3" "status_rank ''ENABLE_PAGES'' = 4"
  "status_rank ''VERIFY_PAGES'' = 5" "status_rank ''NOTIFY_EVALUATOR'' = 6"
  "status_rank ''COMPLETE'' = 7" "status_rank ''FAILED'' = 7"
  by (simp_all add: status_rank_def pipeline_order_def)

lemma terminal_simps:
  "\<not> terminal ''GENERATING_PROJECT''" "\<not> terminal ''CREATE_REPO''"
  "\<not> terminal ''PUSH_COMMIT''" "\<not> terminal ''ENABLE_PAGES''"
  "\<not> terminal ''VERIFY_PAGES''" "\<not> terminal ''NOTIFY_EVALUATOR''"
  "terminal ''COMPLETE''" "terminal ''FAILED''"
  by (simp_all add: terminal_def)


lemma snd_commit: "snd (commit f r) = snd r @ [f (fst r)]"
  by (simp add: commit_def)

lemma sorted_le_last:
  fixes xs :: "nat list"
  shows "sorted xs \<Longrightarrow> x \<in> set xs \<Longrightarrow> x \<le> last xs"
  by (induction xs) (auto split: if_splits)

lemma ordered_run_le_current:
  assumes "ordered_run k r" and "c \<in> set (snd r)"
  shows "status_rank (status c) \<le> status_rank (status (fst r))"
proof -
  let ?rk = "\<lambda>c. status_rank (status c)"
  from assms(1) have n: "snd r \<noteq> []" and l: "fst r = last (snd r)"
    and s: "sorted (map ?rk (snd r))"
    by (simp_all add: ordered_run_def)
  from assms(2) have "?rk c \<in> set (map ?rk (snd r))" by simp
  with s have "?rk c \<le> last (map ?rk (snd r))" by (rule sorted_le_last)
  also have "last (map ?rk (snd r)) = ?rk (fst r)" using n l by (simp add: last_map)
  finally show ?thesis .
qed

lemma ordered_run_status:
  assumes "ordered_run j r" and "j \<le> status_rank s" and "status_rank s \<le> k" and "\<not> terminal s"
  shows "ordered_run k (commit (\<lambda>t. t\<lparr>status := s\<rparr>) r)"
  using assms by (fastforce simp: ordered_run_def commit_def sorted_append)

lemma ordered_run_field:
  assumes "ordered_run k r" and "\<And>t. status (f t) = status t"
  shows "ordered_run k (commit f r)"
proof -
  from assms(1) have "fst r \<in> set (snd r)"
    by (simp add: ordered_run_def)
  with assms ordered_run_le_current [OF assms(1)] show ?thesis
    by (auto simp: ordered_run_def commit_def sorted_append)
qed

lemma ordered_run_mono: "ordered_run j r \<Longrightarrow> j \<le> k \<Longrightarrow> ordered_run k r"
  by (fastforce simp: ordered_run_def)

lemma run_inv_current: "run_inv t k r \<Longrightarrow> same_submission t (fst r)"
  by (simp add: run_inv_def ordered_run_def)

lemma run_inv_status:
  assumes "run_inv t j r" and "j \<le> status_rank s" and "status_rank s \<le> k" and "\<not> terminal s"
  shows "run_inv t k (commit (\<lambda>c. c\<lparr>status := s\<rparr>) r)"
  using assms ordered_run_status [of j r s k] run_inv_current [of t j r]
  by (auto simp: run_inv_def same_submission_def snd_commit ordered_run_def)

lemma run_inv_field:
  assumes "run_inv t k r" and "\<And>c. status (f c) = status c"
    and "\<And>c. same_submission t c \<Longrightarrow> same_submission t (f c)"
  shows "run_inv t k (commit f r)"
  using assms ordered_run_field [of k r f] run_inv_current [of t k r]
  by (auto simp: run_inv_def snd_commit ordered_run_def)

lemma run_inv_mono: "run_inv t j r \<Longrightarrow> j \<le> k \<Longrightarrow> run_inv t k r"
  by (auto simp: run_inv_def intro: ordered_run_mono)

lemma outcome_Inl: "run_inv t k r \<Longrightarrow> k \<le> 6 \<Longrightarrow> outcome_inv t w (Inl (e, r))"
  by (simp add: outcome_inv_def run_inv_mono)

lemma outcome_Inr:
  "run_inv t 6 r \<Longrightarrow>
     outcome_inv t w (Inr (commit (\<lambda>c. c\<lparr>status := ''COMPLETE'', completed_at := Some (time_complete w)\<rparr>) r))"
  unfolding outcome_inv_def sum.case by blast

lemma notify_outcome:
  assumes "run_inv t 5 r"
  shows "outcome_inv t w (state_notify_evaluator w r)"
proof -
  let ?r = "commit (\<lambda>c. c\<lparr>status := ''NOTIFY_EVALUATOR''\<rparr>) r"
  from assms have a: "run_inv t 6 ?r"
    by (intro run_inv_status [of t 5]) (simp_all add: rank_simps terminal_simps)
  show ?thesis
  proof (cases "fst (notify_evaluator w (fst ?r) (time_start w) (time_notify w))")
    case (Inl e)
    with a show ?thesis
      by (simp add: state_notify_evaluator_def Let_def outcome_Inl [of t 6])
  next
    case (Inr u)
    with a show ?thesis
      by (simp add: state_notify_evaluator_def Let_def outcome_Inr)
  qed
qed

lemma verify_outcome:
  assumes "run_inv t 4 r"
  shows "outcome_inv t w (state_verify_pages w r)"
proof -
  let ?r = "commit (\<lambda>c. c\<lparr>status := ''VERIFY_PAGES''\<rparr>) r"
  from assms have a: "run_inv t 5 ?r"
    by (intro run_inv_status [of t 4]) (simp_all add: rank_simps terminal_simps)
  have b: "run_inv t 5 (commit (\<lambda>c. c\<lparr>pages_url := p\<rparr>) ?r)" for p
    using a run_inv_field [of t 5 ?r "\<lambda>c. c\<lparr>pages_url := p\<rparr>"]
    by (simp add: same_submission_def)
  show ?thesis
  proof (cases "fst (verify_pages_deployment (page_polls w) (fst ?r))")
    case (Inl e)
    with a show ?thesis
      by (simp add: state_verify_pages_def Let_def outcome_Inl [of t 5])
  next
    case (Inr pages)
    with a b show ?thesis
      by (simp add: state_verify_pages_def Let_def notify_outcome)
  qed
qed

lemma enable_outcome:
  assumes "run_inv t 3 r"
  shows "outcome_inv t w (state_enable_pages w r)"
proof -
  let ?r = "commit (\<lambda>c. c\<lparr>status := ''ENABLE_PAGES''\<rparr>) r"
  from assms have a: "run_inv t 4 ?r"
    by (intro run_inv_status [of t 3]) (simp_all add: rank_simps terminal_simps)
  then show ?thesis
    by (cases "enable_github_pages w (fst ?r) (github_token w)")
       (simp_all add: state_enable_pages_def Let_def outcome_Inl [of t 4] verify_outcome)
qed

lemma push_outcome:
  assumes "run_inv t 2 r"
  shows "outcome_inv t w (state_push_commit w repo r)"
proof -
  let ?r = "commit (\<lambda>c. c\<lparr>status := ''PUSH_COMMIT''\<rparr>) r"
  from assms have a: "run_inv t 3 ?r"
    by (intro run_inv_status [of t 2]) (simp_all add: rank_simps terminal_simps)
  have b: "run_inv t 3 (commit (\<lambda>c. c\<lparr>commit_sha := p\<rparr>) ?r)" for p
    using a run_inv_field [of t 3 ?r "\<lambda>c. c\<lparr>commit_sha := p\<rparr>"]
    by (simp add: same_submission_def)
  from a b show ?thesis
    by (simp add: state_push_commit_def Let_def enable_outcome)
qed

lemma create_outcome:
  assumes "run_inv t 1 r"
  shows "outcome_inv t w (state_create_repo w r)"
proof -
  let ?r = "commit (\<lambda>c. c\<lparr>status := ''CREATE_REPO''\<rparr>) r"
  from assms have a: "run_inv t 2 ?r"
    by (intro run_inv_status [of t 1]) (simp_all add: rank_simps terminal_simps)
  have b: "run_inv t 2 (commit (\<lambda>c. c\<lparr>repo_url := p\<rparr>) ?r)" for p
    using a run_inv_field [of t 2 ?r "\<lambda>c. c\<lparr>repo_url := p\<rparr>"]
    by (simp add: same_submission_def)
  show ?thesis
  proof (cases "create_github_repo w (fst ?r) (github_token w)")
    case (Inl e)
    with a show ?thesis
      by (simp add: state_create_repo_def Let_def outcome_Inl [of t 2])
  next
    case (Inr repo)
    with a b show ?thesis
      by (simp add: state_create_repo_def Let_def push_outcome)
  qed
qed

lemma try_outcome: "outcome_inv t w (process_task_try w t)"
proof -
  let ?r = "commit (\<lambda>c. c\<lparr>status := ''GENERATING_PROJECT''\<rparr>) (t, [])"
  have a: "run_inv t 1 ?r"
    by (simp add: run_inv_def ordered_run_def commit_def same_submission_def rank_simps terminal_simps)
  then show ?thesis
    by (cases "write_files w")
       (simp_all add: process_task_try_def state_generating_project_def Let_def
          outcome_Inl [of t 1] create_outcome)
qed

text \<open>The two ways a run ends, with what is known of its commits.\<close>

lemma body_cases:
  obtains (failed) e r where "process_task_try w t = Inl (e, r)" and "run_inv t 6 r"
      and "process_task_body w t = snd r @ [fst r\<lparr>status := ''FAILED'', error_message := Some e\<rparr>]"
  | (complete) r where "run_inv t 6 r"
      and "process_task_try w t =
             Inr (commit (\<lambda>c. c\<lparr>status := ''COMPLETE'', completed_at := Some (time_complete w)\<rparr>) r)"
      and "process_task_body w t =
             snd r @ [fst r\<lparr>status := ''COMPLETE'', completed_at := Some (time_complete w)\<rparr>]"
proof -
  have o: "outcome_inv t w (process_task_try w t)" by (rule try_outcome)
  show ?thesis
  proof (cases "process_task_try w t")
    case (Inl x)
    obtain e r where x: "x = (e, r)" by (cases x)
    with o Inl have "run_inv t 6 r"
      by (simp add: outcome_inv_def)
    with Inl x show ?thesis
      by (intro failed [of e r]) (simp_all add: process_task_body_def process_task_except_def snd_commit)
  next
    case (Inr r')
    with o obtain r where "run_inv t 6 r"
      and "r' = commit (\<lambda>c. c\<lparr>status := ''COMPLETE'', completed_at := Some (time_complete w)\<rparr>) r"
      by (auto simp: outcome_inv_def)
    with Inr show ?thesis
      by (intro complete [of r]) (simp_all add: process_task_body_def snd_commit)
  qed
qed

lemma body_last_same: "same_submission t (last (process_task_body w t))"
proof (cases rule: body_cases [of w t])
  case (failed e r)
  with run_inv_current [of t 6 r] show ?thesis
    by (simp add: same_submission_def)
next
  case (complete r)
  with run_inv_current [of t 6 r] show ?thesis
    by (simp add: same_submission_def)
qed



lemma body_all_same:
  assumes "c \<in> set (process_task_body w t)"
  shows "same_submission t c"
proof (cases rule: body_cases [of w t])
  case (failed e r)
  with assms run_inv_current [of t 6 r] show ?thesis
    by (auto simp: run_inv_def same_submission_def)
next
  case (complete r)
  with assms run_inv_current [of t 6 r] show ?thesis
    by (auto simp: run_inv_def same_submission_def)
qed

section \<open>The intake\<close>

text \<open>
  Claim C9. A submission whose secret is not the configured one fails with the
  authorization error (HTTP 403), and the store and the queue are what they were: no
  row is created. This also covers a server with no secret configured.
\<close>

theorem invalid_secret_rejected:
  assumes "Some (req_secret request) \<noteq> expected"
  shows "api_endpoint expected now request s = (Inl (HTTPException 403 ''Invalid secret.''), s)"
  using assms by (simp add: api_endpoint_def)

theorem invalid_secret_rejected_witness:
  "Some (req_secret (request_a\<lparr>req_secret := ''wrong''\<rparr>)) \<noteq> Some ''s3cret'' \<and>
   api_endpoint (Some ''s3cret'') 5 (request_a\<lparr>req_secret := ''wrong''\<rparr>) empty_server
     = (Inl (HTTPException 403 ''Invalid secret.''), empty_server)"
  using invalid_secret_rejected [of "request_a\<lparr>req_secret := ''wrong''\<rparr>" "Some ''s3cret''" 5 empty_server]
  by (simp add: request_a_def)

lemma distinct_map_eq:
  "distinct (map f xs) \<Longrightarrow> x \<in> set xs \<Longrightarrow> y \<in> set xs \<Longrightarrow> f x = f y \<Longrightarrow> x = y"
  by (meson distinct_map inj_onD)

lemma query_first_SomeD: "query_first p rows = Some c \<Longrightarrow> p c \<and> c \<in> set rows"
  unfolding query_first_def by (induction rows) (auto split: if_splits)

lemma query_first_None: "(query_first p rows = None) = (\<forall>c \<in> set rows. \<not> p c)"
  unfolding query_first_def by (induction rows) auto

lemma query_first_unique:
  assumes "distinct (map nonce rows)" and "t \<in> set rows" and "p t" and "\<And>c. p c \<Longrightarrow> nonce c = nonce t"
  shows "query_first p rows = Some t"
proof (cases "query_first p rows")
  case None
  with assms(2,3) show ?thesis by (simp add: query_first_None)
next
  case (Some c)
  then have "p c" and "c \<in> set rows"
    by (auto dest: query_first_SomeD)
  with assms have "c = t" by (auto intro: distinct_map_eq [of nonce rows])
  with Some show ?thesis by simp
qed

lemma api_endpoint_complete:
  assumes "Some (req_secret request) = expected"
    and "distinct (map nonce (db s))"
    and "t \<in> set (db s)"
    and "nonce t = req_nonce request" and "round' t = req_round request"
    and "status t = ''COMPLETE''"
  shows "api_endpoint expected now request s =
           (Inr \<lparr> ack_status = status t, ack_task = task_name t, ack_nonce = nonce t \<rparr>, s)"
proof -
  have "query_first (\<lambda>c. nonce c = req_nonce request \<and> round' c = req_round request
          \<and> status c = ''COMPLETE'') (db s) = Some t"
    using assms(2-6) by (intro query_first_unique) simp_all
  with assms(1) show ?thesis by (simp add: api_endpoint_def)
qed

text \<open>
  Claim C2. When the secret is right and the table holds a Task \<open>t\<close> with the
  submission's nonce and round and with status \<open>COMPLETE\<close>, the endpoint answers with
  the status, task name and nonce recorded in \<open>t\<close>, and leaves the table and the queue
  as they were: no row is inserted and no run is scheduled. (The table's nonces are
  distinct, as the store enforces.)
\<close>

theorem complete_resubmission_echoed:
  assumes "Some (req_secret request) = expected"
    and "distinct (map nonce (db s))"
    and "t \<in> set (db s)"
    and "nonce t = req_nonce request" and "round' t = req_round request"
    and "status t = ''COMPLETE''"
  shows "api_endpoint expected now request s =
           (Inr \<lparr> ack_status = status t, ack_task = task_name t, ack_nonce = nonce t \<rparr>, s)"
  using assms by (rule api_endpoint_complete)

theorem complete_resubmission_echoed_witness:
  "Some (req_secret request_a) = Some ''s3cret'' \<and> distinct (map nonce (db server_c)) \<and>
   task_c \<in> set (db server_c) \<and> nonce task_c = req_nonce request_a \<and>
   round' task_c = req_round request_a \<and> status task_c = ''COMPLETE'' \<and>
   api_endpoint (Some ''s3cret'') 9 request_a server_c =
     (Inr \<lparr> ack_status = ''COMPLETE'', ack_task = ''portfolio'', ack_nonce = ''n-001'' \<rparr>, server_c)"
proof -
  have h: "Some (req_secret request_a) = Some ''s3cret''" "distinct (map nonce (db server_c))"
    "task_c \<in> set (db server_c)" "nonce task_c = req_nonce request_a"
    "round' task_c = req_round request_a" "status task_c = ''COMPLETE''"
    by (simp_all add: request_a_def server_c_def task_c_def task_a_def new_task_def)
  from complete_resubmission_echoed [OF h, of 9] h show ?thesis
    by (simp add: task_c_def task_a_def new_task_def request_a_def)
qed

lemma next_id_fresh: "next_id rows \<notin> set (map id' rows)"
proof
  assume "next_id rows \<in> set (map id' rows)"
  then have "next_id rows \<le> Max (set (0 # map id' rows))"
    by (intro Max_ge) simp_all
  then show False by (simp add: next_id_def)
qed

lemma insert_task_inv:
  assumes "store_inv s"
  shows "store_inv (snd (insert_task now request s))"
  using assms next_id_fresh [of "db s"]
  by (auto simp: insert_task_def store_inv_def unique_violation_def new_task_def Let_def
           split: option.splits)

lemma api_endpoint_inv:
  assumes "store_inv s"
  shows "store_inv (snd (api_endpoint expected now request s))"
  using assms by (auto simp: api_endpoint_def insert_task_inv split: option.splits)

lemma process_task_keys:
  assumes "distinct (map id' rows)"
  shows "map nonce (process_task w task_id rows) = map nonce rows \<and>
         map id' (process_task w task_id rows) = map id' rows"
proof (cases "query_first (\<lambda>t. id' t = task_id) rows")
  case None
  then show ?thesis by (simp add: process_task_def)
next
  case (Some task)
  then have a: "id' task = task_id" and b: "task \<in> set rows"
    by (auto dest: query_first_SomeD)
  have c: "t = task" if "t \<in> set rows" and "id' t = task_id" for t
    using assms that a b by (auto intro: distinct_map_eq [of id' rows])
  have d: "nonce (last (process_task_body w task)) = nonce task"
          "id' (last (process_task_body w task)) = id' task"
    using body_last_same [of task w] by (simp_all add: same_submission_def)
  from Some c d show ?thesis
    by (auto simp: process_task_def)
qed

lemma step_inv:
  assumes "store_inv s"
  shows "store_inv (step expected ev s)"
proof (cases ev)
  case (Submit now request)
  with assms show ?thesis by (simp add: api_endpoint_inv)
next
  case (RacedInsert now request)
  with assms show ?thesis by (simp add: insert_task_inv)
next
  case (Worker w task_id)
  with assms process_task_keys [of "db s" w task_id] show ?thesis
    by (simp add: store_inv_def)
qed

lemma run_events_inv: "store_inv s \<Longrightarrow> store_inv (run_events expected evs s)"
  unfolding run_events_def
  by (induction evs arbitrary: s) (simp_all add: step_inv)

lemma distinct_filter_le_one:
  "distinct (map f xs) \<Longrightarrow> length (filter (\<lambda>x. f x = v) xs) \<le> 1"
proof (induction xs)
  case Nil
  show ?case by simp
next
  case (Cons a xs)
  show ?case
  proof (cases "f a = v")
    case True
    from Cons.prems True have "v \<notin> f ` set xs" by auto
    then have "filter (\<lambda>x. f x = v) xs = []"
      unfolding filter_empty_conv by blast
    with True show ?thesis by simp
  next
    case False
    with Cons show ?thesis by simp
  qed
qed

lemma store_inv_rows: "store_inv s \<Longrightarrow> length (rows_for n s) \<le> 1"
  using distinct_filter_le_one [of nonce "db s" n]
  by (simp add: store_inv_def rows_for_def)

lemma store_inv_runs:
  assumes "store_inv s"
  shows "runs_for n s = map id' (rows_for n s)"
proof -
  have "(id' t \<in> id' ` set (rows_for n s)) = (nonce t = n)" if "t \<in> set (db s)" for t
  proof
    assume "id' t \<in> id' ` set (rows_for n s)"
    then obtain c where c: "c \<in> set (db s)" "nonce c = n" "id' c = id' t"
      by (auto simp: rows_for_def)
    with assms that have "c = t"
      by (auto simp: store_inv_def intro: distinct_map_eq [of id' "db s"])
    with c show "nonce t = n" by simp
  next
    assume "nonce t = n"
    with that show "id' t \<in> id' ` set (rows_for n s)" by (simp add: rows_for_def)
  qed
  then have "filter (\<lambda>t. id' t \<in> id' ` set (rows_for n s)) (db s) = rows_for n s"
    unfolding rows_for_def [of n s, THEN sym] by (auto simp: rows_for_def intro: filter_cong)
  with assms show ?thesis
    by (simp add: runs_for_def store_inv_def filter_map comp_def)
qed

lemma insert_task_conflict_same:
  "unique_violation request (db s) \<Longrightarrow> snd (insert_task now request s) = s"
  by (simp add: insert_task_def split: option.splits)

lemma insert_task_conflict_found:
  assumes "unique_violation request (db s)" and "distinct (map nonce (db s))" and "t \<in> set (db s)"
    and "nonce t = req_nonce request" and "round' t = req_round request"
  shows "fst (insert_task now request s) =
           Inr \<lparr> ack_status = status t, ack_task = task_name t, ack_nonce = nonce t \<rparr>"
proof -
  have "query_first (\<lambda>c. nonce c = req_nonce request \<and> round' c = req_round request) (db s) = Some t"
    using assms(2-5) by (intro query_first_unique) simp_all
  with assms(1) show ?thesis by (simp add: insert_task_def)
qed

lemma insert_task_conflict_fallback:
  assumes "unique_violation request (db s)"
    and "\<forall>c \<in> set (db s). nonce c = req_nonce request \<longrightarrow> round' c \<noteq> req_round request"
  shows "fst (insert_task now request s) =
           Inl (HTTPException 409 ''A task with this nonce already exists.'')"
proof -
  have "query_first (\<lambda>c. nonce c = req_nonce request \<and> round' c = req_round request) (db s) = None"
    using assms(2) by (simp add: query_first_None)
  with assms(1) show ?thesis by (simp add: insert_task_def)
qed

lemma api_endpoint_conflict_same:
  "unique_violation request (db s) \<Longrightarrow> snd (api_endpoint expected now request s) = s"
  by (simp add: api_endpoint_def insert_task_conflict_same split: option.splits)

lemma api_endpoint_conflict_found:
  assumes "Some (req_secret request) = expected"
    and "unique_violation request (db s)" and "distinct (map nonce (db s))" and "t \<in> set (db s)"
    and "nonce t = req_nonce request" and "round' t = req_round request"
  shows "fst (api_endpoint expected now request s) =
           Inr \<lparr> ack_status = status t, ack_task = task_name t, ack_nonce = nonce t \<rparr>"
proof (cases "status t = ''COMPLETE''")
  case True
  with assms show ?thesis by (simp add: api_endpoint_complete)
next
  case False
  have "query_first (\<lambda>c. nonce c = req_nonce request \<and> round' c = req_round request
          \<and> status c = ''COMPLETE'') (db s) = None"
  proof (rule ccontr)
    assume "query_first (\<lambda>c. nonce c = req_nonce request \<and> round' c = req_round request
          \<and> status c = ''COMPLETE'') (db s) \<noteq> None"
    then obtain c where "c \<in> set (db s)" and "nonce c = req_nonce request" and "status c = ''COMPLETE''"
      by (auto dest: query_first_SomeD)
    with assms(3-5) have "c = t" by (auto intro: distinct_map_eq [of nonce "db s"])
    with False \<open>status c = ''COMPLETE''\<close> show False by simp
  qed
  with assms show ?thesis
    by (simp add: api_endpoint_def insert_task_conflict_found)
qed

lemma api_endpoint_conflict_fallback:
  assumes "Some (req_secret request) = expected"
    and "unique_violation request (db s)"
    and "\<forall>c \<in> set (db s). nonce c = req_nonce request \<longrightarrow> round' c \<noteq> req_round request"
  shows "fst (api_endpoint expected now request s) =
           Inl (HTTPException 409 ''A task with this nonce already exists.'')"
proof -
  have "query_first (\<lambda>c. nonce c = req_nonce request \<and> round' c = req_round request
          \<and> status c = ''COMPLETE'') (db s) = None"
    using assms(3) by (auto simp: query_first_None)
  with assms show ?thesis
    by (simp add: api_endpoint_def insert_task_conflict_fallback)
qed

text \<open>
  Claim C1, amended. Start from the empty store and let any sequence of events happen:
  submissions, inserts that raced (their checks were made against an earlier state of
  the table) and worker runs. Then the table holds at most one row for a nonce and the
  queue at most one job for it; indeed nonces and ids are distinct and the queue is
  the list of the rows' ids, one job a row. When the insert meets a uniqueness
  conflict, no row is added and nothing is queued, and the answer is
  \<^item> the current status, task name and nonce of the row for (nonce, round), when the
    table has one;
  \<^item> the 409 conflict error, when the nonce is held by a row of another round only.

  The claim as written has the first answer for every uniqueness conflict.
\<close>

theorem one_row_one_run_per_nonce:
  "store_inv (run_events expected evs empty_server) \<and>
   length (rows_for n (run_events expected evs empty_server)) \<le> 1 \<and>
   length (runs_for n (run_events expected evs empty_server)) \<le> 1 \<and>
   (Some (req_secret request) = expected \<and> unique_violation request (db s) \<longrightarrow>
      snd (api_endpoint expected now request s) = s \<and> snd (insert_task now request s) = s \<and>
      (distinct (map nonce (db s)) \<and> t \<in> set (db s) \<and> nonce t = req_nonce request \<and>
       round' t = req_round request \<longrightarrow>
         fst (api_endpoint expected now request s) =
           Inr \<lparr> ack_status = status t, ack_task = task_name t, ack_nonce = nonce t \<rparr> \<and>
         fst (insert_task now request s) =
           Inr \<lparr> ack_status = status t, ack_task = task_name t, ack_nonce = nonce t \<rparr>) \<and>
      ((\<forall>c \<in> set (db s). nonce c = req_nonce request \<longrightarrow> round' c \<noteq> req_round request) \<longrightarrow>
         fst (api_endpoint expected now request s) =
           Inl (HTTPException 409 ''A task with this nonce already exists.'') \<and>
         fst (insert_task now request s) =
           Inl (HTTPException 409 ''A task with this nonce already exists.'')))"
proof -
  have "store_inv empty_server"
    by (simp add: store_inv_def empty_server_def)
  then have inv: "store_inv (run_events expected evs empty_server)"
    by (rule run_events_inv)
  have runs: "length (runs_for n (run_events expected evs empty_server)) \<le> 1"
    using inv store_inv_rows [OF inv, of n] by (simp add: store_inv_runs)
  from inv store_inv_rows [OF inv, of n] runs
    insert_task_conflict_same [of request s now]
    insert_task_conflict_found [of request s t now]
    insert_task_conflict_fallback [of request s now]
    api_endpoint_conflict_same [of request s expected now]
    api_endpoint_conflict_found [of request expected s t now]
    api_endpoint_conflict_fallback [of request expected s now]
  show ?thesis by blast
qed

text \<open>
  The Task of scenario A is in the table; the same nonce is submitted for round 2. The
  insert violates the unique constraint, and the answer is the 409 error, not the
  result of a row.
\<close>

theorem conflict_without_row_counterexample:
  "unique_violation (request_a\<lparr>req_round := 2\<rparr>) (db server_a) \<and>
   api_endpoint (Some ''s3cret'') 7 (request_a\<lparr>req_round := 2\<rparr>) server_a =
     (Inl (HTTPException 409 ''A task with this nonce already exists.''), server_a)"
  by (simp add: api_endpoint_def insert_task_def unique_violation_def query_first_def
        request_a_def server_a_def task_a_def new_task_def)

text \<open>
  Scenario A is submitted; a worker runs its pipeline; the same submission comes again,
  and once more as an insert that raced. One row, one job; the answer to the
  resubmission is the row's current status.
\<close>

lemma run_a:
  "run_events (Some ''s3cret'')
     [Submit 0 request_a, Worker world_ok 1, Submit 4 request_a, RacedInsert 6 request_a]
     empty_server = server_after_run"
proof -
  have s1: "snd (api_endpoint (Some ''s3cret'') 0 request_a empty_server) = server_a"
    by (simp add: api_endpoint_def insert_task_def unique_violation_def query_first_def
          request_a_def server_a_def task_a_def new_task_def empty_server_def next_id_def Let_def)
  have "id' task_a = 1"
    by (simp add: task_a_def new_task_def)
  then have s2: "server_a\<lparr> db := process_task world_ok 1 (db server_a) \<rparr> = server_after_run"
    by (simp add: process_task_def query_first_def server_a_def server_after_run_def first_run)
  have s3: "snd (api_endpoint (Some ''s3cret'') 4 request_a server_after_run) = server_after_run"
    by (simp add: api_endpoint_def insert_task_def unique_violation_def query_first_def
          request_a_def server_after_run_def task_after_run_def task_a_def new_task_def)
  have s4: "snd (insert_task 6 request_a server_after_run) = server_after_run"
    by (simp add: insert_task_def unique_violation_def query_first_def
          request_a_def server_after_run_def task_after_run_def task_a_def new_task_def)
  have "Some (req_secret request_a) = Some ''s3cret''"
    by (simp add: request_a_def)
  with s1 s2 s3 s4 show ?thesis
    by (simp add: run_events_def)
qed

theorem one_row_one_run_per_nonce_witness:
  "run_events (Some ''s3cret'')
     [Submit 0 request_a, Worker world_ok 1, Submit 4 request_a, RacedInsert 6 request_a]
     empty_server = server_after_run \<and>
   store_inv server_after_run \<and>
   rows_for ''n-001'' server_after_run = [task_after_run] \<and>
   runs_for ''n-001'' server_after_run = [1] \<and>
   unique_violation request_a (db server_after_run) \<and>
   api_endpoint (Some ''s3cret'') 7 request_a server_after_run =
     (Inr \<lparr> ack_status = ''FAILED'', ack_task = ''portfolio'', ack_nonce = ''n-001'' \<rparr>,
      server_after_run) \<and>
   unique_violation (request_a\<lparr>req_round := 2\<rparr>) (db server_after_run) \<and>
   insert_task 7 (request_a\<lparr>req_round := 2\<rparr>) server_after_run =
     (Inl (HTTPException 409 ''A task with this nonce already exists.''), server_after_run)"
proof -
  let ?evs = "[Submit 0 request_a, Worker world_ok 1, Submit 4 request_a, RacedInsert 6 request_a]"
  let ?s = server_after_run
  let ?t = task_after_run
  have v: "unique_violation request_a (db ?s)"
          "unique_violation (request_a\<lparr>req_round := 2\<rparr>) (db ?s)"
          "Some (req_secret request_a) = Some ''s3cret''"
          "Some (req_secret (request_a\<lparr>req_round := 2\<rparr>)) = Some ''s3cret''"
    by (simp_all add: unique_violation_def request_a_def server_after_run_def task_after_run_def
          task_a_def new_task_def)
  have h1: "distinct (map nonce (db ?s)) \<and> ?t \<in> set (db ?s) \<and>
            nonce ?t = req_nonce request_a \<and> round' ?t = req_round request_a"
    by (simp add: server_after_run_def task_after_run_def task_a_def new_task_def)
  have h2: "\<forall>c \<in> set (db ?s). nonce c = req_nonce (request_a\<lparr>req_round := 2\<rparr>) \<longrightarrow>
              round' c \<noteq> req_round (request_a\<lparr>req_round := 2\<rparr>)"
    by (simp add: server_after_run_def task_after_run_def task_a_def new_task_def request_a_def)
  have r: "rows_for ''n-001'' ?s = [?t]" "runs_for ''n-001'' ?s = [1]"
    by (simp_all add: rows_for_def runs_for_def server_after_run_def task_after_run_def
          task_a_def new_task_def request_a_def)
  from one_row_one_run_per_nonce [of "Some ''s3cret''" ?evs "''n-001''" request_a ?s 7 ?t, unfolded run_a] v h1
  have a: "store_inv ?s" "api_endpoint (Some ''s3cret'') 7 request_a ?s =
      (Inr \<lparr> ack_status = status ?t, ack_task = task_name ?t, ack_nonce = nonce ?t \<rparr>, ?s)"
    by (simp_all add: prod_eq_iff)
  from one_row_one_run_per_nonce [of "Some ''s3cret''" ?evs "''n-001''" "request_a\<lparr>req_round := 2\<rparr>" ?s 7 ?t] v h2
  have b: "insert_task 7 (request_a\<lparr>req_round := 2\<rparr>) ?s =
      (Inl (HTTPException 409 ''A task with this nonce already exists.''), ?s)"
    by (simp add: prod_eq_iff)
  from a b v r run_a show ?thesis
    by (simp add: task_after_run_def task_a_def new_task_def request_a_def)
qed

section \<open>Status order and exceptions\<close>


lemma body_order:
  "process_task_body w task \<noteq> [] \<and>
   hd (process_task_body w task) = task\<lparr>status := ''GENERATING_PROJECT''\<rparr> \<and>
   sorted (map (\<lambda>c. status_rank (status c)) (process_task_body w task)) \<and>
   terminal (status (last (process_task_body w task))) \<and>
   (\<forall>c \<in> set (butlast (process_task_body w task)). \<not> terminal (status c))"
proof (cases rule: body_cases [of w task])
  case (failed e r)
  then show ?thesis
    by (auto simp: run_inv_def ordered_run_def sorted_append rank_simps terminal_simps)
next
  case (complete r)
  then show ?thesis
    by (auto simp: run_inv_def ordered_run_def sorted_append rank_simps terminal_simps)
qed




















section \<open>What the intake stores\<close>

text \<open>
  Claim C10. A submission with the right secret and a nonce the table does not hold is
  accepted: the endpoint appends one row and queues its id. Whatever \<open>brief\<close> and
  \<open>evaluation_url\<close> the request carried, the row has \<open>brief = None\<close> and
  \<open>evaluation_url = None\<close>, and so has every state a pipeline run for that row commits:
  the Task handed to the notify step carries no stored callback URL.
\<close>

theorem fresh_insert_stores_no_callback:
  assumes "Some (req_secret request) = expected"
    and "req_nonce request \<notin> set (map nonce (db s))"
  shows "snd (api_endpoint expected now request s) =
           s\<lparr> db := db s @ [new_task (next_id (db s)) now request],
              queue := queue s @ [next_id (db s)] \<rparr> \<and>
         brief (new_task (next_id (db s)) now request) = None \<and>
         evaluation_url (new_task (next_id (db s)) now request) = None \<and>
         (\<forall>c \<in> set (process_task_body w (new_task (next_id (db s)) now request)).
            evaluation_url c = None \<and> brief c = None)"
proof -
  let ?t = "new_task (next_id (db s)) now request"
  have "query_first (\<lambda>t. nonce t = req_nonce request \<and> round' t = req_round request
          \<and> status t = ''COMPLETE'') (db s) = None"
    using assms(2) unfolding query_first_None by (metis image_eqI list.set_map)
  with assms have "snd (api_endpoint expected now request s) =
      s\<lparr> db := db s @ [?t], queue := queue s @ [next_id (db s)] \<rparr>"
    by (simp add: api_endpoint_def insert_task_def unique_violation_def Let_def new_task_def)
  moreover have "brief ?t = None" "evaluation_url ?t = None"
    by (simp_all add: new_task_def)
  moreover from this have "\<forall>c \<in> set (process_task_body w ?t). evaluation_url c = None \<and> brief c = None"
    using body_all_same [of _ w ?t] by (auto simp: same_submission_def)
  ultimately show ?thesis by blast
qed

theorem fresh_insert_stores_no_callback_witness:
  "Some (req_secret request_a) = Some ''s3cret'' \<and>
   req_nonce request_a \<notin> set (map nonce (db empty_server)) \<and>
   req_evaluation_url request_a = Some ''https://evaluator.example/notify'' \<and>
   req_brief request_a = Some ''Hello'' \<and>
   snd (api_endpoint (Some ''s3cret'') 0 request_a empty_server) = server_a \<and>
   evaluation_url task_a = None \<and> brief task_a = None \<and>
   evaluation_url (last (process_task_body world_ok task_a)) = None"
proof -
  have h: "Some (req_secret request_a) = Some ''s3cret''"
    "req_nonce request_a \<notin> set (map nonce (db empty_server))"
    by (simp_all add: request_a_def empty_server_def)
  have t: "new_task (next_id (db empty_server)) 0 request_a = task_a"
    and i: "next_id (db empty_server) = 1"
    by (simp_all add: task_a_def next_id_def empty_server_def)
  note f = fresh_insert_stores_no_callback [OF h, of 0 world_ok, unfolded t]
  from body_order [of world_ok task_a]
  have "last (process_task_body world_ok task_a) \<in> set (process_task_body world_ok task_a)"
    by simp
  with f have "evaluation_url (last (process_task_body world_ok task_a)) = None"
    by blast
  moreover from f i have "snd (api_endpoint (Some ''s3cret'') 0 request_a empty_server) = server_a"
    by (simp add: server_a_def empty_server_def)
  moreover have "req_evaluation_url request_a = Some ''https://evaluator.example/notify''"
    "req_brief request_a = Some ''Hello''"
    by (simp_all add: request_a_def)
  ultimately show ?thesis using f h by blast
qed

text \<open>
  More than that: the row has no description of an error either, so the notifier, if
  the run gets to it, raises for want of a callback URL. No run for a row as the intake
  made it ends \<open>COMPLETE\<close>.
\<close>

lemma no_callback_commit:
  "no_callback r \<Longrightarrow> evaluation_url (f (fst r)) = evaluation_url (fst r) \<Longrightarrow>
   error_message (f (fst r)) = error_message (fst r) \<Longrightarrow> no_callback (commit f r)"
  by (simp add: no_callback_def commit_def)

lemma notify_no_callback: "no_callback r \<Longrightarrow> isl (state_notify_evaluator w r)"
  by (auto simp: state_notify_evaluator_def Let_def no_callback_def commit_def notify_evaluator_def
        split: sum.splits)

lemma verify_no_callback: "no_callback r \<Longrightarrow> isl (state_verify_pages w r)"
  by (auto simp: state_verify_pages_def Let_def split: sum.splits
        intro!: notify_no_callback no_callback_commit)

lemma enable_no_callback: "no_callback r \<Longrightarrow> isl (state_enable_pages w r)"
  by (auto simp: state_enable_pages_def Let_def split: option.splits
        intro!: verify_no_callback no_callback_commit)

lemma push_no_callback: "no_callback r \<Longrightarrow> isl (state_push_commit w repo r)"
  by (auto simp: state_push_commit_def Let_def
        intro!: enable_no_callback no_callback_commit)

lemma create_no_callback: "no_callback r \<Longrightarrow> isl (state_create_repo w r)"
  by (auto simp: state_create_repo_def Let_def split: sum.splits
        intro!: push_no_callback no_callback_commit)

lemma try_no_callback:
  "evaluation_url task = None \<Longrightarrow> error_message task = None \<Longrightarrow> isl (process_task_try w task)"
  by (auto simp: process_task_try_def state_generating_project_def Let_def no_callback_def commit_def
        split: option.splits intro!: create_no_callback)

lemma fresh_insert_never_completes:
  "status (last (process_task_body w (new_task ident now request))) = ''FAILED''"
proof -
  have "isl (process_task_try w (new_task ident now request))"
    by (rule try_no_callback) (simp_all add: new_task_def)
  then show ?thesis
    by (cases "process_task_try w (new_task ident now request)")
       (auto simp: process_task_body_def process_task_except_def commit_def)
qed

section \<open>A push that fails\<close>

lemma no_sha_status: "no_sha r \<Longrightarrow> no_sha (commit (\<lambda>c. c\<lparr>status := s\<rparr>) r)"
  by (simp add: no_sha_def commit_def)

lemma no_sha_pages: "no_sha r \<Longrightarrow> no_sha (commit (\<lambda>c. c\<lparr>pages_url := p\<rparr>) r)"
  by (simp add: no_sha_def commit_def)

lemma no_sha_repo: "no_sha r \<Longrightarrow> no_sha (commit (\<lambda>c. c\<lparr>repo_url := p\<rparr>) r)"
  by (simp add: no_sha_def commit_def)

lemma verify_error_nonempty: "fst (verify_pages_deployment g t) = Inl e \<Longrightarrow> e \<noteq> []"
  by (auto simp: verify_pages_deployment_def Let_def split: if_splits list.splits prod.splits)

lemma notify_no_sha:
  assumes "no_sha r"
  shows "fails_without_sha (state_notify_evaluator w r)"
proof -
  let ?r = "commit (\<lambda>c. c\<lparr>status := ''NOTIFY_EVALUATOR''\<rparr>) r"
  from assms have a: "no_sha ?r" by (rule no_sha_status)
  then have "fst (notify_evaluator w (fst ?r) (time_start w) (time_notify w)) =
      Inl ''Missing required fields for evaluation notification.''"
    by (simp add: notify_evaluator_def no_sha_def)
  with a show ?thesis
    by (simp add: state_notify_evaluator_def Let_def fails_without_sha_def)
qed

lemma verify_no_sha:
  assumes "no_sha r"
  shows "fails_without_sha (state_verify_pages w r)"
proof -
  let ?r = "commit (\<lambda>c. c\<lparr>status := ''VERIFY_PAGES''\<rparr>) r"
  from assms have a: "no_sha ?r" by (rule no_sha_status)
  show ?thesis
  proof (cases "fst (verify_pages_deployment (page_polls w) (fst ?r))")
    case (Inl e)
    with a verify_error_nonempty [OF Inl] show ?thesis
      by (simp add: state_verify_pages_def Let_def fails_without_sha_def)
  next
    case (Inr pages)
    with a no_sha_pages [OF a, of pages] show ?thesis
      by (simp add: state_verify_pages_def Let_def notify_no_sha)
  qed
qed

lemma enable_no_sha:
  assumes "no_sha r" and "pages_api w \<noteq> Some []"
  shows "fails_without_sha (state_enable_pages w r)"
proof -
  let ?r = "commit (\<lambda>c. c\<lparr>status := ''ENABLE_PAGES''\<rparr>) r"
  from assms have a: "no_sha ?r" by (intro no_sha_status)
  show ?thesis
  proof (cases "enable_github_pages w (fst ?r) (github_token w)")
    case None
    with a show ?thesis
      by (simp add: state_enable_pages_def Let_def verify_no_sha)
  next
    case (Some e)
    with assms(2) have "e \<noteq> []"
      by (auto simp: enable_github_pages_def split: if_splits)
    with a Some show ?thesis
      by (simp add: state_enable_pages_def Let_def fails_without_sha_def)
  qed
qed

lemma push_to_github_task: "push_to_github w t repo token = push_to_github w t' repo token"
  by (simp add: push_to_github_def)

lemma create_github_repo_task: "create_github_repo w t token = create_github_repo w t' token"
  by (simp add: create_github_repo_def)

lemma push_no_sha:
  assumes "no_sha r" and "pages_api w \<noteq> Some []"
    and "push_to_github w t repo (github_token w) = None"
  shows "fails_without_sha (state_push_commit w repo r)"
proof -
  let ?r = "commit (\<lambda>c. c\<lparr>status := ''PUSH_COMMIT''\<rparr>) r"
  from assms have a: "no_sha ?r" by (intro no_sha_status)
  from assms(3) have "push_to_github w (fst ?r) repo (github_token w) = None"
    by (simp add: push_to_github_task [of w "fst ?r" repo "github_token w" t])
  with a assms(2) show ?thesis
    by (simp add: state_push_commit_def Let_def enable_no_sha)
qed

lemma create_no_sha:
  assumes "no_sha r" and "pages_api w \<noteq> Some []"
    and "create_github_repo w t (github_token w) = Inr repo"
    and "push_to_github w t repo (github_token w) = None"
  shows "fails_without_sha (state_create_repo w r)"
proof -
  let ?r = "commit (\<lambda>c. c\<lparr>status := ''CREATE_REPO''\<rparr>) r"
  from assms have a: "no_sha ?r" by (intro no_sha_status)
  from assms(3) have c: "create_github_repo w (fst ?r) (github_token w) = Inr repo"
    by (simp add: create_github_repo_task [of w "fst ?r" "github_token w" t])
  from a have "no_sha (commit (\<lambda>c. c\<lparr>repo_url := repo\<rparr>) ?r)" by (rule no_sha_repo)
  with a c assms(2,4) show ?thesis
    by (simp add: state_create_repo_def Let_def push_no_sha [of _ w t repo])
qed

lemma try_no_sha:
  assumes "commit_sha task = None" and "pages_api w \<noteq> Some []"
    and "write_files w = None"
    and "create_github_repo w task (github_token w) = Inr repo"
    and "push_to_github w task repo (github_token w) = None"
  shows "fails_without_sha (process_task_try w task)"
proof -
  let ?r = "commit (\<lambda>c. c\<lparr>status := ''GENERATING_PROJECT''\<rparr>) (task, [])"
  from assms(1) have "no_sha ?r" by (simp add: no_sha_def commit_def)
  with assms show ?thesis
    by (simp add: process_task_try_def state_generating_project_def Let_def
          create_no_sha [of _ w task repo])
qed

text \<open>
  Claim C8. The Task has no \<open>commit_sha\<close> yet (the intake leaves the column empty), the
  steps before the push did not raise, and \<open>push_to_github\<close> gave no result: it swallows
  every failure of git and returns \<open>None\<close>. Then the run ends with status \<open>FAILED\<close>
  and an \<open>error_message\<close> that is not empty, and no state it commits has a
  \<open>commit_sha\<close>. The failure surfaces after the push step: in enabling publication or in
  the verifier if one of them raises, else in the notifier, which refuses a Task
  without \<open>commit_sha\<close>. (An exception of the hosting provider is taken to have a
  description that is not empty.)
\<close>

theorem failed_push_ends_failed:
  assumes "commit_sha task = None"
    and "write_files w = None"
    and "create_github_repo w task (github_token w) = Inr repo"
    and "push_to_github w task repo (github_token w) = None"
    and "pages_api w \<noteq> Some []"
  shows "status (last (process_task_body w task)) = ''FAILED'' \<and>
         (\<exists>m. error_message (last (process_task_body w task)) = Some m \<and> m \<noteq> []) \<and>
         (\<forall>c \<in> set (process_task_body w task). commit_sha c = None)"
proof -
  from try_no_sha [OF assms(1,5,2,3,4)]
  obtain e r where "process_task_try w task = Inl (e, r)" and "e \<noteq> []" and "no_sha r"
    by (auto simp: fails_without_sha_def split: sum.splits)
  then show ?thesis
    by (auto simp: process_task_body_def process_task_except_def commit_def no_sha_def)
qed

theorem failed_push_ends_failed_witness:
  "commit_sha task_with_callback = None \<and> write_files (world_ok\<lparr>git_push := None\<rparr>) = None \<and>
   create_github_repo (world_ok\<lparr>git_push := None\<rparr>) task_with_callback (github_token (world_ok\<lparr>git_push := None\<rparr>))
     = Inr (Some ''https://github.com/alice/student-task-n-001-1-ab12cd.git'') \<and>
   push_to_github (world_ok\<lparr>git_push := None\<rparr>) task_with_callback
     (Some ''https://github.com/alice/student-task-n-001-1-ab12cd.git'') (github_token (world_ok\<lparr>git_push := None\<rparr>)) = None \<and>
   pages_api (world_ok\<lparr>git_push := None\<rparr>) \<noteq> Some [] \<and>
   map status (process_task_body (world_ok\<lparr>git_push := None\<rparr>) task_with_callback) =
     [''GENERATING_PROJECT'', ''CREATE_REPO'', ''CREATE_REPO'', ''PUSH_COMMIT'', ''ENABLE_PAGES'',
      ''VERIFY_PAGES'', ''VERIFY_PAGES'', ''NOTIFY_EVALUATOR'', ''FAILED''] \<and>
   error_message (last (process_task_body (world_ok\<lparr>git_push := None\<rparr>) task_with_callback)) =
     Some ''Missing required fields for evaluation notification.'' \<and>
   commit_sha (last (process_task_body (world_ok\<lparr>git_push := None\<rparr>) task_with_callback)) = None"
proof -
  let ?w = "world_ok\<lparr>git_push := None\<rparr>"
  let ?repo = "Some ''https://github.com/alice/student-task-n-001-1-ab12cd.git''"
  have h: "commit_sha task_with_callback = None" "write_files ?w = None"
    "create_github_repo ?w task_with_callback (github_token ?w) = Inr ?repo"
    "push_to_github ?w task_with_callback ?repo (github_token ?w) = None"
    "pages_api ?w \<noteq> Some []"
    by (simp_all add: example_defs create_github_repo_def push_to_github_def)
  have e: "map status (process_task_body ?w task_with_callback) =
     [''GENERATING_PROJECT'', ''CREATE_REPO'', ''CREATE_REPO'', ''PUSH_COMMIT'', ''ENABLE_PAGES'',
      ''VERIFY_PAGES'', ''VERIFY_PAGES'', ''NOTIFY_EVALUATOR'', ''FAILED'']"
    "error_message (last (process_task_body ?w task_with_callback)) =
     Some ''Missing required fields for evaluation notification.''"
    by (simp_all add: run_defs example_defs poll_pages.simps)
  from body_order [of ?w task_with_callback]
  have "last (process_task_body ?w task_with_callback) \<in> set (process_task_body ?w task_with_callback)"
    by simp
  with failed_push_ends_failed [OF h]
  have "commit_sha (last (process_task_body ?w task_with_callback)) = None"
    by blast
  with h e show ?thesis by blast
qed

section \<open>The verifier\<close>

lemma poll_pages_url: "fst (poll_pages get url k elapsed) = url"
  by (induction get url k elapsed rule: poll_pages.induct)
     (subst poll_pages.simps, simp add: split_beta)

lemma poll_pages_polls:
  assumes "elapsed = 10 * k" and "ps = snd (poll_pages get url k elapsed)"
  shows "ps = map (\<lambda>i. 10 * i) [k ..< k + length ps] \<and>
         k + length ps \<le> max k 30 \<and>
         (\<forall>i. k \<le> i \<and> Suc i < k + length ps \<longrightarrow> get i \<noteq> Some 200) \<and>
         (k + length ps < 30 \<longrightarrow> ps \<noteq> [] \<and> get (k + length ps - 1) = Some 200)"
  using assms
proof (induction get url k elapsed arbitrary: ps rule: poll_pages.induct)
  case (1 get url k elapsed)
  show ?case
  proof (cases "elapsed < 300")
    case False
    with "1.prems" have "ps = []" and "30 \<le> k"
      by (simp_all add: poll_pages.simps)
    then show ?thesis by auto
  next
    case True
    with "1.prems" have k: "k < 30" by simp
    show ?thesis
    proof (cases "get k = Some 200")
      case hit: True
      with True "1.prems" have "ps = [10 * k]"
        by (simp add: poll_pages.simps)
      with hit k show ?thesis by (auto simp: upt_rec)
    next
      case miss: False
      define qs where "qs = snd (poll_pages get url (Suc k) (elapsed + 10))"
      from True miss have "snd (poll_pages get url k elapsed) =
          elapsed # snd (poll_pages get url (Suc k) (elapsed + 10))"
        by (subst poll_pages.simps) (simp add: split_beta)
      with "1.prems" have ps: "ps = 10 * k # qs"
        by (simp add: qs_def)
      from "1.prems"(1) have "elapsed + 10 = 10 * Suc k" by simp
      from "1.IH" [OF True miss this qs_def]
      have ih: "qs = map (\<lambda>i. 10 * i) [Suc k ..< Suc k + length qs]"
        "Suc k + length qs \<le> max (Suc k) 30"
        "\<forall>i. Suc k \<le> i \<and> Suc i < Suc k + length qs \<longrightarrow> get i \<noteq> Some 200"
        "Suc k + length qs < 30 \<longrightarrow> qs \<noteq> [] \<and> get (Suc k + length qs - 1) = Some 200"
        by blast+
      from ih(1) have a: "ps = map (\<lambda>i. 10 * i) [k ..< k + length ps]"
        by (subst upt_rec) (simp add: ps)
      from ih(2) k have b: "k + length ps \<le> max k 30"
        by (simp add: ps)
      have c: "get i \<noteq> Some 200" if "k \<le> i" and "Suc i < k + length ps" for i
      proof (cases "i = k")
        case True
        with miss show ?thesis by simp
      next
        case False
        with that ih(3) show ?thesis by (simp add: ps)
      qed
      from ih(4) have d: "k + length ps < 30 \<longrightarrow> ps \<noteq> [] \<and> get (k + length ps - 1) = Some 200"
        by (simp add: ps)
      from a b c d show ?thesis by blast
    qed
  qed
qed

text \<open>
  The URL. For the clone URL of a repository, \<open>https://github.com/owner/name.git\<close>
  with no \<open>/\<close> and no \<open>.\<close> in \<open>owner\<close>, no \<open>/\<close> in \<open>name\<close>, the parts that lines
  171--172 cut out are \<open>owner\<close> and \<open>name\<close> as long as \<open>.git\<close> does not occur inside
  \<open>name\<close>.
\<close>

lemma split_from_without_sep:
  "\<forall>i. take (length sep) (drop i s) \<noteq> sep \<Longrightarrow> py_split_from sep acc s = [rev acc @ s]"
proof (induction s arbitrary: acc)
  case Nil
  show ?case by simp
next
  case (Cons c cs)
  from Cons.prems have "take (length sep) (drop 0 (c # cs)) \<noteq> sep" by blast
  then have n: "take (length sep) (c # cs) \<noteq> sep" by simp
  have "\<forall>i. take (length sep) (drop i cs) \<noteq> sep"
  proof
    fix i
    from Cons.prems have "take (length sep) (drop (Suc i) (c # cs)) \<noteq> sep" by blast
    then show "take (length sep) (drop i cs) \<noteq> sep" by simp
  qed
  from Cons.IH [OF this, of "c # acc"] n show ?case by simp
qed

lemma split_from_slash:
  "CHR ''/'' \<notin> set s \<Longrightarrow>
   py_split_from ''/'' acc (s @ CHR ''/'' # t) = (rev acc @ s) # py_split_from ''/'' [] t"
proof (induction s arbitrary: acc)
  case Nil
  show ?case by simp
next
  case (Cons a s)
  from Cons.prems have "a \<noteq> CHR ''/''" and "CHR ''/'' \<notin> set s" by auto
  with Cons.IH [of "a # acc"] show ?case by simp
qed

lemma split_from_no_slash:
  "CHR ''/'' \<notin> set s \<Longrightarrow> py_split_from ''/'' acc s = [rev acc @ s]"
proof (induction s arbitrary: acc)
  case Nil
  show ?case by simp
next
  case (Cons a s)
  from Cons.prems have "a \<noteq> CHR ''/''" and "CHR ''/'' \<notin> set s" by auto
  with Cons.IH [of "a # acc"] show ?case by simp
qed

lemma replace_git_suffix:
  "\<not> occurs ''.git'' s \<Longrightarrow> py_replace ''.git'' [] (s @ ''.git'') = s"
proof (induction s)
  case Nil
  show ?case by simp
next
  case (Cons x xs)
  from Cons.prems have a: "take (length ''.git'') (x # xs) \<noteq> ''.git''"
    and b: "\<not> occurs ''.git'' xs"
    unfolding occurs.simps by blast+
  have ne: "take (length ''.git'') (x # xs @ ''.git'') \<noteq> ''.git''"
  proof (cases "3 \<le> length xs")
    case True
    then have "take (length ''.git'') (x # xs @ ''.git'') = take (length ''.git'') (x # xs)"
      by simp
    with a show ?thesis by simp
  next
    case False
    then have "length xs = 0 \<or> length xs = 1 \<or> length xs = 2" by linarith
    then consider "xs = []" | p where "xs = [p]" | p q where "xs = [p, q]"
      by (auto simp: length_Suc_conv numeral_2_eq_2)
    then show ?thesis by cases simp_all
  qed
  have "py_replace ''.git'' [] ((x # xs) @ ''.git'') = x # py_replace ''.git'' [] (xs @ ''.git'')"
    using ne by (simp only: append_Cons py_replace.simps simp_thms if_False)
  with Cons.IH [OF b] show ?case by (simp only:)
qed

lemma occurs_after_dotless:
  "CHR ''.'' \<notin> set s \<Longrightarrow> occurs ''.git'' (s @ CHR ''/'' # t) = occurs ''.git'' t"
proof (induction s)
  case Nil
  show ?case by simp
next
  case (Cons a s)
  from Cons.prems have "a \<noteq> CHR ''.''" and "CHR ''.'' \<notin> set s" by auto
  with Cons.IH show ?case by simp
qed

lemma slash_position:
  assumes "CHR ''/'' \<notin> set owner" and "CHR ''/'' \<notin> set name"
    and "j < length (owner @ ''/'' @ name @ ''.git'')"
    and "(owner @ ''/'' @ name @ ''.git'') ! j = CHR ''/''"
  shows "j = length owner"
proof (rule ccontr)
  assume n: "j \<noteq> length owner"
  show False
  proof (cases "j < length owner")
    case True
    with assms(4) have "owner ! j = CHR ''/''" by (simp add: nth_append)
    with True assms(1) show False by (metis nth_mem)
  next
    case False
    with n have g: "length owner < j" by simp
    define k where "k = j - Suc (length owner)"
    from g have j: "j = length owner + Suc k" by (simp add: k_def)
    with assms(4) have e: "(name @ ''.git'') ! k = CHR ''/''" by (simp add: nth_append)
    show False
    proof (cases "k < length name")
      case True
      with e have "name ! k = CHR ''/''" by (simp add: nth_append)
      with True assms(2) show False by (metis nth_mem)
    next
      case False
      with assms(3) j have "k - length name < 4" by simp
      then consider "k - length name = 0" | "k - length name = 1" | "k - length name = 2"
        | "k - length name = 3" by linarith
      then show False using e False by cases (simp_all add: nth_append)
    qed
  qed
qed

lemma take_drop_nth:
  assumes "take n (drop i s) = sub" and "length sub = n" and "k < n"
  shows "i + k < length s \<and> s ! (i + k) = sub ! k"
proof -
  from assms(1,2) have "length (take n (drop i s)) = n" by simp
  with assms(3) have l: "i + n \<le> length s" by (simp add: min_def split: if_splits)
  with assms(3) have "take n (drop i s) ! k = s ! (i + k)" by simp
  with assms l show ?thesis by simp
qed

lemma no_host_in_full_name:
  assumes "CHR ''/'' \<notin> set owner" and "CHR ''.'' \<notin> set owner" and "CHR ''/'' \<notin> set name"
  shows "take (length ''github.com/'') (drop i (owner @ ''/'' @ name @ ''.git'')) \<noteq> ''github.com/''"
proof
  let ?s = "owner @ ''/'' @ name @ ''.git''"
  assume h: "take (length ''github.com/'') (drop i ?s) = ''github.com/''"
  from take_drop_nth [OF h refl, of 10]
  have a: "i + 10 < length ?s" "?s ! (i + 10) = CHR ''/''" by simp_all
  from take_drop_nth [OF h refl, of 6]
  have b: "?s ! (i + 6) = CHR ''.''" by simp
  from slash_position [OF assms(1,3) a] have p: "i + 10 = length owner" .
  then have q: "i + 6 < length owner" by simp
  with b have "owner ! (i + 6) = CHR ''.''" by (simp add: nth_append)
  with q have "CHR ''.'' \<in> set owner" by (metis nth_mem)
  with assms(2) show False by simp
qed

lemma split_host:
  assumes "\<forall>i. take (length ''github.com/'') (drop i rest) \<noteq> ''github.com/''"
  shows "py_split ''github.com/'' (''https://github.com/'' @ rest) = [''https://'', rest]"
  using split_from_without_sep [OF assms, of "[]"] by (simp add: py_split_def)

lemma full_name_of_clone_url:
  assumes "CHR ''/'' \<notin> set owner" and "CHR ''.'' \<notin> set owner"
    and "CHR ''/'' \<notin> set name" and "\<not> occurs ''.git'' name"
  shows "py_split ''/'' (py_replace ''.git'' [] (last (py_split ''github.com/''
           (''https://github.com/'' @ owner @ ''/'' @ name @ ''.git'')))) = [owner, name]"
proof -
  let ?rest = "owner @ ''/'' @ name @ ''.git''"
  have "\<forall>i. take (length ''github.com/'') (drop i ?rest) \<noteq> ''github.com/''"
    using no_host_in_full_name [OF assms(1-3)] by blast
  then have "py_split ''github.com/'' (''https://github.com/'' @ ?rest) = [''https://'', ?rest]"
    by (rule split_host)
  then have a: "last (py_split ''github.com/'' (''https://github.com/'' @ ?rest)) = ?rest"
    by (simp only: last.simps list.simps if_False if_True refl simp_thms)
  from assms(4) have "\<not> occurs ''.git'' (owner @ CHR ''/'' # name)"
    unfolding occurs_after_dotless [OF assms(2)] .
  then have "py_replace ''.git'' [] ((owner @ CHR ''/'' # name) @ ''.git'') = owner @ CHR ''/'' # name"
    by (rule replace_git_suffix)
  then have b: "py_replace ''.git'' [] ?rest = owner @ CHR ''/'' # name"
    by simp
  from assms(1,3) have c: "py_split ''/'' (owner @ CHR ''/'' # name) = [owner, name]"
    by (simp add: py_split_def split_from_slash split_from_no_slash)
  from a b c show ?thesis by (simp only:)
qed

text \<open>
  The polling, whenever the verifier returns a URL: the same URL is returned when no
  GET ever answers 200, with no flag beside it. The GETs are made when the loop's
  counter of seconds slept is 0, 10, 20, ...; there are at most 30 of them (the counter
  stops the loop at 300); no GET before the last answered 200; and the loop stops
  before the 30th GET only on a 200.
\<close>

lemma verifier_polls:
  assumes "fst (verify_pages_deployment get task) = Inr (Some u)"
    and "polls = snd (verify_pages_deployment get task)"
  shows "fst (verify_pages_deployment (\<lambda>k. None) task) = Inr (Some u) \<and>
         polls = map (\<lambda>i. 10 * i) [0 ..< length polls] \<and>
         length polls \<le> 30 \<and>
         (\<forall>i. Suc i < length polls \<longrightarrow> get i \<noteq> Some 200) \<and>
         (length polls < 30 \<longrightarrow> polls \<noteq> [] \<and> get (length polls - 1) = Some 200)"
proof -
  let ?parts = "py_split ''/'' (py_replace ''.git'' '''' (last (py_split ''github.com/'' (the (repo_url task)))))"
  from assms(1) have nf: "\<not> falsy (repo_url task)"
    by (auto simp: verify_pages_deployment_def)
  with assms(1) obtain owner repo where p: "?parts = [owner, repo]"
    by (auto simp: verify_pages_deployment_def Let_def split: list.splits)
  let ?u = "''https://'' @ owner @ ''.github.io/'' @ repo @ ''/''"
  have v: "verify_pages_deployment g task = (Inr (Some ?u), snd (poll_pages g ?u 0 0))" for g
    using nf p poll_pages_url [of g ?u 0 0]
    by (simp add: verify_pages_deployment_def Let_def split_beta prod_eq_iff)
  from v [of get] assms(1) have u: "u = ?u" by simp
  from v [of get] assms(2) have "polls = snd (poll_pages get ?u 0 0)"
    by simp
  from poll_pages_polls [OF _ this] v [of "\<lambda>k. None"] u show ?thesis
    by simp
qed

text \<open>The verifier on such a clone URL, and on the clone URL of \<open>alice/site\<close>.\<close>

lemma verifier_url_of_clone_url:
  assumes "repo_url task = Some (''https://github.com/'' @ owner @ ''/'' @ name @ ''.git'')"
    and "CHR ''/'' \<notin> set owner" and "CHR ''.'' \<notin> set owner"
    and "CHR ''/'' \<notin> set name" and "\<not> occurs ''.git'' name"
  shows "fst (verify_pages_deployment get task) =
           Inr (Some (''https://'' @ owner @ ''.github.io/'' @ name @ ''/''))"
proof -
  let ?u = "''https://'' @ owner @ ''.github.io/'' @ name @ ''/''"
  from assms(1) have nf: "\<not> falsy (repo_url task)" by simp
  from assms(1) full_name_of_clone_url [OF assms(2-5)]
  have "py_split ''/'' (py_replace ''.git'' '''' (last (py_split ''github.com/'' (the (repo_url task)))))
          = [owner, name]"
    by simp
  with nf poll_pages_url [of get ?u 0 0] show ?thesis
    by (simp add: verify_pages_deployment_def Let_def split_beta)
qed

lemma verifier_example:
  "verify_pages_deployment (page_polls world_ok)
       (task_a\<lparr>repo_url := Some ''https://github.com/alice/site.git''\<rparr>) =
     (Inr (Some ''https://alice.github.io/site/''), [0, 10, 20]) \<and>
   fst (verify_pages_deployment (page_polls world_no_page)
       (task_a\<lparr>repo_url := Some ''https://github.com/alice/site.git''\<rparr>)) =
     Inr (Some ''https://alice.github.io/site/'') \<and>
   length (snd (verify_pages_deployment (page_polls world_no_page)
       (task_a\<lparr>repo_url := Some ''https://github.com/alice/site.git''\<rparr>))) = 30"
proof -
  let ?t = "task_a\<lparr>repo_url := Some ''https://github.com/alice/site.git''\<rparr>"
  have h: "repo_url ?t = Some (''https://github.com/'' @ ''alice'' @ ''/'' @ ''site'' @ ''.git'')"
    "CHR ''/'' \<notin> set ''alice''" "CHR ''.'' \<notin> set ''alice''" "CHR ''/'' \<notin> set ''site''"
    "\<not> occurs ''.git'' ''site''"
    by simp_all
  note u = verifier_url_of_clone_url [OF h]
  have e: "snd (verify_pages_deployment (page_polls world_ok) ?t) = [0, 10, 20]"
    by (simp add: verify_pages_deployment_def py_split_def Let_def poll_pages.simps world_ok_def)
  from verifier_polls [OF u [of "page_polls world_no_page"] refl]
  have l: "length (snd (verify_pages_deployment (page_polls world_no_page) ?t)) = 30"
    by (cases "length (snd (verify_pages_deployment (page_polls world_no_page) ?t)) < 30")
       (simp_all add: world_no_page_def)
  from u [of "page_polls world_ok"] e
  have "verify_pages_deployment (page_polls world_ok) ?t =
      (Inr (Some ''https://alice.github.io/site/''), [0, 10, 20])"
    by (simp add: prod_eq_iff)
  with u [of "page_polls world_no_page"] l show ?thesis by simp
qed

text \<open>
  Claim C7, at an input where the code does not do what the claim says. The repository
  of the submission with nonce \<open>a.gitb\<close> is \<open>student-task-a.gitb-1-ab12cd\<close>, of owner
  \<open>alice\<close>. The \<open>replace\<close> of line 171, there to drop the suffix \<open>.git\<close> of the clone
  URL, also drops the \<open>.git\<close> inside the name: the verifier polls and returns
  \<open>https://alice.github.io/student-task-ab-1-ab12cd/\<close>, which is not the publication
  URL of that owner and name, the one the comment of line 170 describes. The polling
  is as claimed: GETs when the counter is 0, 10 and 20, the third answering 200; 30
  GETs, and the same URL returned, when none answers 200.
\<close>

theorem verifier_url_loses_git_inside_name:
  "nonce task_dotgit = ''a.gitb'' \<and>
   repo_url task_dotgit = Some ''https://github.com/alice/student-task-a.gitb-1-ab12cd.git'' \<and>
   verify_pages_deployment (page_polls world_ok) task_dotgit =
     (Inr (Some ''https://alice.github.io/student-task-ab-1-ab12cd/''), [0, 10, 20]) \<and>
   fst (verify_pages_deployment (page_polls world_no_page) task_dotgit) =
     Inr (Some ''https://alice.github.io/student-task-ab-1-ab12cd/'') \<and>
   length (snd (verify_pages_deployment (page_polls world_no_page) task_dotgit)) = 30 \<and>
   fst (verify_pages_deployment (page_polls world_ok) task_dotgit) \<noteq>
     Inr (Some ''https://alice.github.io/student-task-a.gitb-1-ab12cd/'')"
proof -
  have a: "nonce task_dotgit = ''a.gitb''"
    "repo_url task_dotgit = Some ''https://github.com/alice/student-task-a.gitb-1-ab12cd.git''"
    by (simp_all add: task_dotgit_def new_task_def request_a_def)
  have b: "verify_pages_deployment (page_polls world_ok) task_dotgit =
     (Inr (Some ''https://alice.github.io/student-task-ab-1-ab12cd/''), [0, 10, 20])"
    by (simp add: a verify_pages_deployment_def py_split_def Let_def poll_pages.simps world_ok_def)
  have c: "fst (verify_pages_deployment (page_polls world_no_page) task_dotgit) =
     Inr (Some ''https://alice.github.io/student-task-ab-1-ab12cd/'')"
    by (simp add: a verify_pages_deployment_def py_split_def Let_def poll_pages_url split_beta)
  from verifier_polls [OF c refl]
  have d: "length (snd (verify_pages_deployment (page_polls world_no_page) task_dotgit)) = 30"
    by (cases "length (snd (verify_pages_deployment (page_polls world_no_page) task_dotgit)) < 30")
       (simp_all add: world_no_page_def)
  from a b c d show ?thesis by simp
qed

section \<open>The notifier\<close>

lemma retrying_first:
  "snd (retrying responses url payload call_start n now) \<noteq> [] \<and>
   hd (snd (retrying responses url payload call_start n now)) = (now, url, payload)"
  by (subst (1 2) retrying.simps) (simp add: split_beta)

lemma retrying_posts:
  "p \<in> set (snd (retrying responses url payload call_start n now)) \<Longrightarrow> snd p = (url, payload)"
proof (induction responses url payload call_start n now rule: retrying.induct)
  case (1 responses url payload call_start n now)
  from "1.prems" show ?case
    by (subst (asm) retrying.simps) (auto simp: split_beta split: if_splits dest: "1.IH")
qed

lemma build_payload_Inr:
  "build_evaluation_payload w task = Inr payload \<Longrightarrow>
   payload = \<lparr> p_email = email task, p_task = task_name task, p_round = round' task,
               p_nonce = nonce task, p_repo_url = the (repo_url task),
               p_commit_sha = the (commit_sha task), p_pages_url = pages_url task \<rparr>"
  by (auto simp: build_evaluation_payload_def Let_def split: option.splits)

lemma notify_log:
  "snd (notify_evaluator w task start_time now) =
     (if falsy (pages_url task) \<or> falsy (repo_url task) \<or> falsy (commit_sha task) then []
      else if falsy (evaluation_url task) \<and> falsy (error_message task) then []
      else (case build_evaluation_payload w task of
              Inl e \<Rightarrow> []
            | Inr payload \<Rightarrow>
                snd (post_with_retry (post_responses w) now
                  (the (if falsy (evaluation_url task) then error_message task else evaluation_url task))
                  payload)))"
  by (simp add: notify_evaluator_def Let_def split: sum.splits prod.splits)

text \<open>
  What the notifier does, for every Task. It raises at once, with no POST made, when
  \<open>pages_url\<close>, \<open>repo_url\<close> or \<open>commit_sha\<close> is missing (\<open>None\<close> or empty), and when
  both \<open>evaluation_url\<close> and \<open>error_message\<close> are missing. Otherwise the URL it POSTs
  to is \<open>evaluation_url\<close> or, when that is missing, the text in \<open>error_message\<close>; every
  POST goes to it, and its body is the seven fields \<open>email\<close>, \<open>task\<close>, \<open>round\<close>,
  \<open>nonce\<close>, \<open>repo_url\<close>, \<open>commit_sha\<close>, \<open>pages_url\<close> read from the Task; a first POST
  is made on entry unless building the payload raises.
\<close>

theorem notifier_fail_fast_and_payload:
  "(falsy (pages_url task) \<or> falsy (repo_url task) \<or> falsy (commit_sha task) \<longrightarrow>
      notify_evaluator w task start_time now =
        (Inl ''Missing required fields for evaluation notification.'', [])) \<and>
   (\<not> falsy (pages_url task) \<and> \<not> falsy (repo_url task) \<and> \<not> falsy (commit_sha task) \<and>
    falsy (evaluation_url task) \<and> falsy (error_message task) \<longrightarrow>
      notify_evaluator w task start_time now = (Inl ''No evaluation_url found for task.'', [])) \<and>
   (\<forall>p \<in> set (snd (notify_evaluator w task start_time now)).
      fst (snd p) = the (if falsy (evaluation_url task) then error_message task else evaluation_url task) \<and>
      snd (snd p) = \<lparr> p_email = email task, p_task = task_name task, p_round = round' task,
                      p_nonce = nonce task, p_repo_url = the (repo_url task),
                      p_commit_sha = the (commit_sha task), p_pages_url = pages_url task \<rparr>) \<and>
   (\<not> falsy (pages_url task) \<and> \<not> falsy (repo_url task) \<and> \<not> falsy (commit_sha task) \<and>
    \<not> (falsy (evaluation_url task) \<and> falsy (error_message task)) \<and>
    \<not> isl (build_evaluation_payload w task) \<longrightarrow>
      snd (notify_evaluator w task start_time now) \<noteq> [] \<and>
      fst (hd (snd (notify_evaluator w task start_time now))) = now)"
proof -
  let ?url = "the (if falsy (evaluation_url task) then error_message task else evaluation_url task)"
  have a: "falsy (pages_url task) \<or> falsy (repo_url task) \<or> falsy (commit_sha task) \<Longrightarrow>
      notify_evaluator w task start_time now =
        (Inl ''Missing required fields for evaluation notification.'', [])"
    by (simp add: notify_evaluator_def)
  have b: "\<not> falsy (pages_url task) \<and> \<not> falsy (repo_url task) \<and> \<not> falsy (commit_sha task) \<and>
    falsy (evaluation_url task) \<and> falsy (error_message task) \<Longrightarrow>
      notify_evaluator w task start_time now = (Inl ''No evaluation_url found for task.'', [])"
    by (simp add: notify_evaluator_def)
  have c: "fst (snd p) = ?url \<and>
      snd (snd p) = \<lparr> p_email = email task, p_task = task_name task, p_round = round' task,
                      p_nonce = nonce task, p_repo_url = the (repo_url task),
                      p_commit_sha = the (commit_sha task), p_pages_url = pages_url task \<rparr>"
    if p: "p \<in> set (snd (notify_evaluator w task start_time now))" for p
  proof (cases "build_evaluation_payload w task")
    case (Inl e)
    with p show ?thesis by (simp add: notify_log split: if_splits)
  next
    case (Inr payload)
    with p have "p \<in> set (snd (post_with_retry (post_responses w) now ?url payload))"
      by (simp add: notify_log split: if_splits)
    then have "snd p = (?url, payload)"
      unfolding post_with_retry_def by (rule retrying_posts)
    with build_payload_Inr [OF Inr] show ?thesis by simp
  qed
  have d: "snd (notify_evaluator w task start_time now) \<noteq> [] \<and>
      fst (hd (snd (notify_evaluator w task start_time now))) = now"
    if "\<not> falsy (pages_url task) \<and> \<not> falsy (repo_url task) \<and> \<not> falsy (commit_sha task) \<and>
        \<not> (falsy (evaluation_url task) \<and> falsy (error_message task)) \<and>
        \<not> isl (build_evaluation_payload w task)"
  proof -
    from that obtain payload where "build_evaluation_payload w task = Inr payload"
      by (cases "build_evaluation_payload w task") auto
    with that retrying_first [of "post_responses w" ?url payload now 1 now] show ?thesis
      by (simp add: notify_log post_with_retry_def)
  qed
  from a b c d show ?thesis by blast
qed

theorem notifier_fail_fast_and_payload_witness:
  "falsy (pages_url task_with_callback) \<and>
   notify_evaluator world_ok task_with_callback 100 130 =
     (Inl ''Missing required fields for evaluation notification.'', []) \<and>
   falsy (evaluation_url (task_ready\<lparr>evaluation_url := None\<rparr>)) \<and>
   falsy (error_message (task_ready\<lparr>evaluation_url := None\<rparr>)) \<and>
   notify_evaluator world_ok (task_ready\<lparr>evaluation_url := None\<rparr>) 100 130 =
     (Inl ''No evaluation_url found for task.'', []) \<and>
   fst (notify_evaluator world_ok task_ready 100 130) = Inr () \<and>
   map fst (snd (notify_evaluator world_ok task_ready 100 130)) = [130, 133, 138] \<and>
   fst (snd (hd (snd (notify_evaluator world_ok task_ready 100 130)))) =
     ''https://evaluator.example/notify'' \<and>
   snd (snd (hd (snd (notify_evaluator world_ok task_ready 100 130)))) =
     \<lparr> p_email = ''a@example.com'', p_task = ''portfolio'', p_round = 1, p_nonce = ''n-001'',
       p_repo_url = ''https://github.com/alice/student-task-n-001-1-ab12cd.git'',
       p_commit_sha = ''0123abc'',
       p_pages_url = Some ''https://alice.github.io/student-task-n-001-1-ab12cd/'' \<rparr>"
proof -
  have h1: "falsy (pages_url task_with_callback)"
    by (simp add: example_defs)
  have h2: "\<not> falsy (pages_url (task_ready\<lparr>evaluation_url := None\<rparr>))"
    "\<not> falsy (repo_url (task_ready\<lparr>evaluation_url := None\<rparr>))"
    "\<not> falsy (commit_sha (task_ready\<lparr>evaluation_url := None\<rparr>))"
    "falsy (evaluation_url (task_ready\<lparr>evaluation_url := None\<rparr>))"
    "falsy (error_message (task_ready\<lparr>evaluation_url := None\<rparr>))"
    by (simp_all add: example_defs example_defs2)
  have h3: "\<not> falsy (pages_url task_ready)" "\<not> falsy (repo_url task_ready)"
    "\<not> falsy (commit_sha task_ready)" "\<not> falsy (evaluation_url task_ready)"
    "\<not> isl (build_evaluation_payload world_ok task_ready)"
    by (simp_all add: example_defs example_defs2 build_evaluation_payload_def)
  have e: "fst (notify_evaluator world_ok task_ready 100 130) = Inr ()"
    "map fst (snd (notify_evaluator world_ok task_ready 100 130)) = [130, 133, 138]"
    by (simp_all add: run_defs example_defs example_defs2 retrying.simps)
  from notifier_fail_fast_and_payload [of task_with_callback world_ok 100 130] h1
  have a: "notify_evaluator world_ok task_with_callback 100 130 =
      (Inl ''Missing required fields for evaluation notification.'', [])"
    by blast
  from notifier_fail_fast_and_payload [of "task_ready\<lparr>evaluation_url := None\<rparr>" world_ok 100 130] h2
  have b: "notify_evaluator world_ok (task_ready\<lparr>evaluation_url := None\<rparr>) 100 130 =
      (Inl ''No evaluation_url found for task.'', [])"
    by blast
  note c = notifier_fail_fast_and_payload [of task_ready world_ok 100 130]
  from c h3 have "snd (notify_evaluator world_ok task_ready 100 130) \<noteq> []"
    by blast
  then have "hd (snd (notify_evaluator world_ok task_ready 100 130)) \<in>
      set (snd (notify_evaluator world_ok task_ready 100 130))"
    by simp
  with c h3 have d: "fst (snd (hd (snd (notify_evaluator world_ok task_ready 100 130)))) =
      the (evaluation_url task_ready)"
    "snd (snd (hd (snd (notify_evaluator world_ok task_ready 100 130)))) =
      \<lparr> p_email = email task_ready, p_task = task_name task_ready, p_round = round' task_ready,
        p_nonce = nonce task_ready, p_repo_url = the (repo_url task_ready),
        p_commit_sha = the (commit_sha task_ready), p_pages_url = pages_url task_ready \<rparr>"
    by auto
  from h1 h2 a b e d show ?thesis
    by (simp add: example_defs example_defs2)
qed

text \<open>
  Claim C6, at an input where the code does not do what the claim says. The Task that
  a first run left \<open>FAILED\<close> (no callback URL was stored, so the notifier raised, and
  the \<open>except\<close> clause wrote the description to \<open>error_message\<close>) is run again. Its
  \<open>evaluation_url\<close> is missing, yet the notifier does not raise before any POST:
  lines 135--138, there to get the original \<open>evaluation_url\<close> if it is stored in
  \<open>error_message\<close>, take the description of the earlier failure for it, the test of
  line 139 passes, and the first POST is made on entry, to that description. With a
  callback URL in \<open>evaluation_url\<close>, or with both columns empty, the notifier does
  as claimed: it raises before any POST when a required field is missing, and the
  payload is the seven fields, as shown above.
\<close>

theorem missing_callback_posts_to_error_message:
  "last (process_task_body world_ok task_a) = task_after_run \<and>
   evaluation_url task_after_run = None \<and>
   snd (notify_evaluator world_late task_after_run 0 450) \<noteq> [] \<and>
   fst (hd (snd (notify_evaluator world_late task_after_run 0 450))) = 450 \<and>
   fst (snd (hd (snd (notify_evaluator world_late task_after_run 0 450)))) =
     ''No evaluation_url found for task.''"
proof -
  have a: "last (process_task_body world_ok task_a) = task_after_run"
    by (rule first_run)
  have b: "evaluation_url task_after_run = None"
    by (simp add: example_defs example_defs2)
  let ?p = "\<lparr> p_email = ''a@example.com'', p_task = ''portfolio'', p_round = 1, p_nonce = ''n-001'',
     p_repo_url = ''https://github.com/alice/student-task-n-001-1-ab12cd.git'',
     p_commit_sha = ''0123abc'',
     p_pages_url = Some ''https://alice.github.io/student-task-n-001-1-ab12cd/'' \<rparr>"
  have "snd (notify_evaluator world_late task_after_run 0 450) =
      snd (retrying (post_responses world_late) ''No evaluation_url found for task.'' ?p 450 1 450)"
    by (simp add: notify_log build_evaluation_payload_def post_with_retry_def
          example_defs example_defs2)
  with retrying_first [of "post_responses world_late" "''No evaluation_url found for task.''" ?p 450 1 450]
    a b show ?thesis by simp
qed

text \<open>
  The retry policy in general: the waits are 2, 4, 8, then 16 seconds; a 200 ends the
  loop at once; and every POST starts less than 616 seconds after the call of
  \<open>post_with_retry\<close> (the deadline is tested after an attempt, before the wait).
\<close>

lemma wait_exponential_schedule:
  "wait_exponential (Suc n) = (if n = 0 then 2 else if n = 1 then 4 else if n = 2 then 8 else 16)"
proof (cases "n < 3")
  case True
  then have "n = 0 \<or> n = 1 \<or> n = 2" by auto
  then show ?thesis by (auto simp: wait_exponential_def)
next
  case False
  then have "(2::nat) ^ 3 \<le> 2 ^ n" by (intro power_increasing) simp_all
  with False show ?thesis by (simp add: wait_exponential_def)
qed

lemma retrying_stops_on_200:
  "snd (responses n) = Some 200 \<Longrightarrow>
   retrying responses url payload call_start n now = (Inr 200, [(now, url, payload)])"
  by (subst retrying.simps) simp

lemma retrying_bounded:
  assumes "p \<in> set (snd (retrying responses url payload call_start n now))"
    and "now < call_start + 616"
  shows "fst p < call_start + 616"
  using assms
proof (induction responses url payload call_start n now rule: retrying.induct)
  case (1 responses url payload call_start n now)
  show ?case
  proof (cases "snd (responses n) = Some 200 \<or> stop_after_delay (now + fst (responses n) - call_start)")
    case True
    with "1.prems" show ?thesis
      by (subst (asm) retrying.simps) (auto split: if_splits)
  next
    case False
    let ?next = "now + fst (responses n) + wait_exponential n"
    from False have "now + fst (responses n) < call_start + 600"
      by (auto simp: stop_after_delay_def)
    moreover have "wait_exponential n \<le> 16"
      by (simp add: wait_exponential_def)
    ultimately have b: "?next < call_start + 616" by simp
    from False "1.prems"(1) have "p = (now, url, payload) \<or>
        p \<in> set (snd (retrying responses url payload call_start (Suc n) ?next))"
      by (subst (asm) retrying.simps) (simp add: split_beta)
    then show ?thesis
    proof
      assume "p = (now, url, payload)"
      with "1.prems"(2) show ?thesis by simp
    next
      assume "p \<in> set (snd (retrying responses url payload call_start (Suc n) ?next))"
      with False b show ?thesis by (intro "1.IH") simp_all
    qed
  qed
qed

text \<open>
  Claim C5, at an input where the code does not do what the claim says. The pipeline
  started at time 0, the notifier is entered at 450, and the evaluator answers every
  POST with 500. The waits between the attempts are 2, 4, 8, then 16 seconds, as
  claimed; but the 600 seconds of \<open>stop_after_delay\<close> run from the call of
  \<open>post_with_retry\<close>, not from the start of the pipeline (\<open>remaining\<close>, computed from
  \<open>start_time\<close> at line 143, is never used): the attempts go on until 1056 seconds
  after the pipeline started.
\<close>

theorem retry_deadline_measured_from_call:
  "time_start world_late = 0 \<and> time_notify world_late = 450 \<and>
   fst (notify_evaluator world_late task_ready (time_start world_late) (time_notify world_late)) =
     Inl ''Failed to notify evaluator: RetryError'' \<and>
   map fst (snd (notify_evaluator world_late task_ready (time_start world_late) (time_notify world_late))) =
     [450, 452, 456, 464, 480, 496, 512, 528, 544, 560, 576, 592, 608, 624,
      640, 656, 672, 688, 704, 720, 736, 752, 768, 784, 800, 816, 832, 848,
      864, 880, 896, 912, 928, 944, 960, 976, 992, 1008, 1024, 1040, 1056]"
  by (simp add: run_defs example_defs example_defs2 retrying.simps)

end
